theory Spec2Isabelle
  imports Complex_Main
begin

section \<open>Decimal numbers of the payroll program\<close>

text \<open>
  The program computes with Python's \<^verbatim>\<open>decimal.Decimal\<close> in the default context:
  28 significant digits, rounding \<^verbatim>\<open>ROUND_HALF_EVEN\<close>, traps on
  \<^verbatim>\<open>InvalidOperation\<close> and \<^verbatim>\<open>DivisionByZero\<close>. A decimal is modelled by the
  rational number it denotes. What this leaves out is the representation of a value (its
  exponent and the sign of a zero), which only \<^verbatim>\<open>str\<close> shows and which is fixed
  to two fractional digits by every \<^verbatim>\<open>quantize\<close> of the program, and the exponent range
  of the context (\<^verbatim>\<open>Emax = 999999\<close>), which no value of the program comes near.
  \<^verbatim>\<open>Decimal(str(x))\<close> is exact, so an input is the number that \<^verbatim>\<open>str(x)\<close> writes.
  An input that writes no finite number (\<^verbatim>\<open>None\<close>, \<^verbatim>\<open>inf\<close>) makes the conversion or
  \<^verbatim>\<open>quantize\<close> raise \<^verbatim>\<open>InvalidOperation\<close>, as a number of \<open>10\<^sup>2\<^sup>6\<close> or more does;
  the inputs of the model are the finite numbers.
\<close>

datatype error = ValueError string | InvalidOperation | DivisionByZero

datatype rounding = ROUND_HALF_UP | ROUND_HALF_EVEN

text \<open>Rounding to an integer: ties away from zero, and ties to the even neighbour.\<close>

definition round_half_up :: "rat \<Rightarrow> int" where
  "round_half_up y = (if 0 \<le> y then \<lfloor>y + 1 / 2\<rfloor> else - \<lfloor>- y + 1 / 2\<rfloor>)"

definition round_half_even :: "rat \<Rightarrow> int" where
  "round_half_even y =
     (let f = \<lfloor>y\<rfloor>; d = y - of_int f
      in if d < 1 / 2 then f else if 1 / 2 < d then f + 1 else if even f then f else f + 1)"

text \<open>The number of decimal digits of a natural number.\<close>

fun ndigits :: "nat \<Rightarrow> nat" where
  "ndigits n = (if n < 10 then 1 else Suc (ndigits (n div 10)))"

text \<open>
  \<^verbatim>\<open>Decimal.adjusted()\<close>: the exponent of the leading digit, that is the \<open>e\<close> with
  \<open>10\<^sup>e \<le> \<bar>x\<bar> < 10\<^sup>e\<^sup>+\<^sup>1\<close>, for \<open>x \<noteq> 0\<close>.
\<close>

definition adjusted :: "rat \<Rightarrow> int" where
  "adjusted x =
     (if 1 \<le> \<bar>x\<bar> then int (ndigits (nat \<lfloor>\<bar>x\<bar>\<rfloor>)) - 1
      else - int (ndigits (nat (\<lceil>1 / \<bar>x\<bar>\<rceil> - 1))))"

text \<open>
  The context's rounding of an exact result to 28 significant digits, half to even
  (\<^verbatim>\<open>Decimal._fix\<close>): the unit of the last kept digit is \<open>10\<close> to the power
  \<open>adjusted x - 27\<close>.
\<close>

definition ctx_fix :: "rat \<Rightarrow> rat" where
  "ctx_fix x =
     (if x = 0 then 0
      else let q = 10 powi (adjusted x - 27)
           in of_int (round_half_even (x / q)) * q)"

text \<open>The operators \<^verbatim>\<open>+ - * /\<close> on decimals: the exact result, rounded by the context.\<close>

definition dec_add :: "rat \<Rightarrow> rat \<Rightarrow> rat" where
  "dec_add x y = ctx_fix (x + y)"

definition dec_sub :: "rat \<Rightarrow> rat \<Rightarrow> rat" where
  "dec_sub x y = ctx_fix (x - y)"

definition dec_mul :: "rat \<Rightarrow> rat \<Rightarrow> rat" where
  "dec_mul x y = ctx_fix (x * y)"

definition dec_div :: "rat \<Rightarrow> rat \<Rightarrow> error + rat" where
  "dec_div x y =
     (if y = 0 then (if x = 0 then Inl InvalidOperation else Inl DivisionByZero)
      else Inr (ctx_fix (x / y)))"

text \<open>
  \<^verbatim>\<open>x.quantize(Decimal('0.01'), rounding=r)\<close>: \<open>x\<close> rounded to a whole number \<open>c\<close> of
  hundredths. Without the argument (\<open>None\<close>) the rounding is the context's,
  \<^verbatim>\<open>ROUND_HALF_EVEN\<close>. The call raises \<^verbatim>\<open>InvalidOperation\<close> when the coefficient \<open>c\<close>
  of the result has more than 28 digits.
\<close>

definition quantize :: "rat \<Rightarrow> rounding option \<Rightarrow> error + rat" where
  "quantize x r =
     (let c = (case r of
                 Some ROUND_HALF_UP \<Rightarrow> round_half_up (x * 100)
               | Some ROUND_HALF_EVEN \<Rightarrow> round_half_even (x * 100)
               | None \<Rightarrow> round_half_even (x * 100))
      in if 10 ^ 28 \<le> \<bar>c\<bar> then Inl InvalidOperation else Inr (of_int c / 100))"

text \<open>Sequencing of calls that may raise: the first exception ends the computation.\<close>

definition bind_err :: "error + 'a \<Rightarrow> ('a \<Rightarrow> error + 'b) \<Rightarrow> error + 'b" where
  "bind_err m f = (case m of Inl e \<Rightarrow> Inl e | Inr v \<Rightarrow> f v)"

section \<open>The program\<close>

subsection \<open>Rounding utility\<close>

text \<open>
  \<^verbatim>\<open>def to_decimal(x): return Decimal(str(x)).quantize(Decimal('0.01'), rounding=ROUND_HALF_UP)\<close>
\<close>

definition to_decimal :: "rat \<Rightarrow> error + rat" where
  "to_decimal x = quantize x (Some ROUND_HALF_UP)"

subsection \<open>Tax calculator\<close>

definition PF_PERCENT :: rat where
  "PF_PERCENT = 12"

definition TAX_SLABS :: "(rat \<times> rat) list" where
  "TAX_SLABS = [(250000, 0), (500000, 5 / 100), (1000000, 2 / 10), (999999999, 3 / 10)]"

text \<open>
  The body of the loop \<^verbatim>\<open>for limit, rate in TAX_SLABS\<close> of \<^verbatim>\<open>income_tax_annually\<close>,
  on the slabs still to visit, with the variables \<^verbatim>\<open>tax\<close> and \<^verbatim>\<open>prev_limit\<close>; the
  result is \<^verbatim>\<open>tax\<close> when the loop ends, by exhaustion or by \<^verbatim>\<open>break\<close>.
\<close>

fun slab_loop :: "(rat \<times> rat) list \<Rightarrow> rat \<Rightarrow> rat \<Rightarrow> rat \<Rightarrow> rat" where
  "slab_loop [] tax prev_limit taxable_income = tax"
| "slab_loop ((limit, rate) # slabs) tax prev_limit taxable_income =
     (let slab_amount = min (dec_sub limit prev_limit) (dec_sub taxable_income prev_limit)
      in if slab_amount \<le> 0 then slab_loop slabs tax limit taxable_income
         else let tax' = dec_add tax (dec_mul slab_amount rate)
              in if taxable_income \<le> limit then tax'
                 else slab_loop slabs tax' limit taxable_income)"

definition income_tax_annually :: "rat \<Rightarrow> error + rat" where
  "income_tax_annually taxable_income = to_decimal (slab_loop TAX_SLABS 0 0 taxable_income)"

text \<open>
  The reference of the specification, in exact arithmetic: each slab contributes
  \<open>(min slab_ceiling income - prev_limit) * rate\<close> when that amount is positive, the iteration
  stops once \<open>income \<le> slab_ceiling\<close>, and the total is rounded once, half away from zero,
  to two fractional digits.
\<close>

fun reference_slabs :: "(rat \<times> rat) list \<Rightarrow> rat \<Rightarrow> rat \<Rightarrow> rat \<Rightarrow> rat" where
  "reference_slabs [] running_total prev_limit income = running_total"
| "reference_slabs ((slab_ceiling, rate) # slabs) running_total prev_limit income =
     (let amount = min slab_ceiling income - prev_limit
      in if amount \<le> 0 then reference_slabs slabs running_total slab_ceiling income
         else if income \<le> slab_ceiling then running_total + amount * rate
         else reference_slabs slabs (running_total + amount * rate) slab_ceiling income)"

definition round_money_reference :: "rat \<Rightarrow> rat" where
  "round_money_reference x = of_int (round_half_up (x * 100)) / 100"

definition annual_tax_reference :: "rat \<Rightarrow> rat" where
  "annual_tax_reference income = round_money_reference (reference_slabs TAX_SLABS 0 0 income)"

subsection \<open>Stores\<close>

text \<open>
  A row of table \<^verbatim>\<open>employees\<close> (columns prefixed \<open>e_\<close>), a row of table
  \<^verbatim>\<open>payslips\<close> (prefixed \<open>s_\<close>) and the connection's database. The breakdown dictionary
  (keys prefixed \<open>b_\<close>) holds \<^verbatim>\<open>str\<close> of decimals with two fractional digits, modelled
  by the numbers; the \<^verbatim>\<open>REAL\<close> columns hold the numbers too. The new row's \<^verbatim>\<open>id\<close> is its
  position in the table.
\<close>

record employee =
  e_id :: nat
  e_emp_code :: string
  e_name :: string
  e_designation :: string
  e_basic :: rat
  e_hra_percent :: rat
  e_da_percent :: rat
  e_other_allowances :: rat

record breakdown =
  b_basic :: rat
  b_hra :: rat
  b_da :: rat
  b_other_allowances :: rat
  b_gross_salary :: rat
  b_pf :: rat
  b_tax :: rat
  b_total_deductions :: rat
  b_net_salary :: rat

record payslip_row =
  s_emp_id :: nat
  s_month :: string
  s_generated_on :: string
  s_gross_salary :: rat
  s_total_deductions :: rat
  s_net_salary :: rat
  s_breakdown :: breakdown

record database =
  employees :: "employee list"
  payslips :: "payslip_row list"

text \<open>\<^verbatim>\<open>SELECT ... FROM employees WHERE emp_code = ?\<close> and \<^verbatim>\<open>fetchone()\<close>.\<close>

definition get_employee_by_code :: "database \<Rightarrow> string \<Rightarrow> employee option" where
  "get_employee_by_code conn emp_code = find (\<lambda>row. e_emp_code row = emp_code) (employees conn)"

subsection \<open>Pay computation\<close>

text \<open>
  The local variables of \<^verbatim>\<open>compute_pay\<close> after its arithmetic, under their names in the
  source.
\<close>

record amounts =
  basic :: rat
  hra :: rat
  da :: rat
  other_allow :: rat
  gross :: rat
  pf :: rat
  annual_gross :: rat
  taxable_ann :: rat
  annual_tax :: rat
  monthly_tax :: rat
  total_deductions :: rat
  net :: rat

text \<open>The arithmetic of \<^verbatim>\<open>compute_pay\<close>, from the unpacking of the row to \<^verbatim>\<open>net\<close>.\<close>

definition compute_amounts :: "employee \<Rightarrow> error + amounts" where
  "compute_amounts row =
     bind_err (to_decimal (e_basic row)) (\<lambda>basic.
     bind_err (to_decimal (e_hra_percent row)) (\<lambda>hra_pct.
     bind_err (dec_div (dec_mul basic hra_pct) 100) (\<lambda>hra_exact.
     bind_err (quantize hra_exact None) (\<lambda>hra.
     bind_err (to_decimal (e_da_percent row)) (\<lambda>da_pct.
     bind_err (dec_div (dec_mul basic da_pct) 100) (\<lambda>da_exact.
     bind_err (quantize da_exact None) (\<lambda>da.
     bind_err (to_decimal (e_other_allowances row)) (\<lambda>other_allow.
     bind_err (quantize (dec_add (dec_add (dec_add basic hra) da) other_allow) None) (\<lambda>gross.
     bind_err (dec_div (dec_mul basic PF_PERCENT) 100) (\<lambda>pf_exact.
     bind_err (quantize pf_exact None) (\<lambda>pf.
     let annual_gross = dec_mul gross 12;
         standard_deduction = 50000;
         taxable_ann = max 0 (dec_sub annual_gross standard_deduction)
     in
     bind_err (income_tax_annually taxable_ann) (\<lambda>annual_tax.
     bind_err (dec_div annual_tax 12) (\<lambda>monthly_exact.
     bind_err (quantize monthly_exact None) (\<lambda>monthly_tax.
     bind_err (quantize (dec_add pf monthly_tax) None) (\<lambda>total_deductions.
     bind_err (quantize (dec_sub gross total_deductions) None) (\<lambda>net.
     Inr \<lparr>basic = basic, hra = hra, da = da, other_allow = other_allow, gross = gross,
          pf = pf, annual_gross = annual_gross, taxable_ann = taxable_ann,
          annual_tax = annual_tax, monthly_tax = monthly_tax,
          total_deductions = total_deductions, net = net\<rparr>))))))))))))))))"

definition breakdown_of :: "amounts \<Rightarrow> breakdown" where
  "breakdown_of a =
     \<lparr>b_basic = basic a, b_hra = hra a, b_da = da a, b_other_allowances = other_allow a,
      b_gross_salary = gross a, b_pf = pf a, b_tax = monthly_tax a,
      b_total_deductions = total_deductions a, b_net_salary = net a\<rparr>"

text \<open>The dictionary \<^verbatim>\<open>compute_pay\<close> returns: the identity, the month and the breakdown.\<close>

record payslip =
  p_emp_code :: string
  p_name :: string
  p_designation :: string
  p_month :: string
  p_breakdown :: breakdown

text \<open>
  \<^verbatim>\<open>compute_pay(conn, emp_code, month)\<close>. The two readings of the clock,
  \<^verbatim>\<open>now().strftime('%Y-%m')\<close> and \<^verbatim>\<open>now().isoformat()\<close>, are arguments. The result is
  what the call returns or raises, and the database after it.
\<close>

definition compute_pay ::
  "database \<Rightarrow> string \<Rightarrow> string option \<Rightarrow> string \<Rightarrow> string \<Rightarrow> (error + payslip) \<times> database" where
  "compute_pay conn emp_code month now_month now_iso =
     (case get_employee_by_code conn emp_code of
        None \<Rightarrow> (Inl (ValueError ''Employee not found''), conn)
      | Some row \<Rightarrow>
          (case compute_amounts row of
             Inl e \<Rightarrow> (Inl e, conn)
           | Inr a \<Rightarrow>
               let month' = (case month of None \<Rightarrow> now_month | Some m \<Rightarrow> m);
                   new_row = \<lparr>s_emp_id = e_id row, s_month = month', s_generated_on = now_iso,
                              s_gross_salary = gross a, s_total_deductions = total_deductions a,
                              s_net_salary = net a, s_breakdown = breakdown_of a\<rparr>
               in (Inr \<lparr>p_emp_code = e_emp_code row, p_name = e_name row,
                         p_designation = e_designation row, p_month = month',
                         p_breakdown = breakdown_of a\<rparr>,
                   conn\<lparr>payslips := payslips conn @ [new_row]\<rparr>)))"

section \<open>Properties of the decimal arithmetic\<close>

declare ndigits.simps [simp del]

lemma ndigits_pos: "0 < ndigits n"
  by (subst ndigits.simps) simp

lemma ndigits_bounds: "0 < n \<Longrightarrow> 10 ^ (ndigits n - 1) \<le> n \<and> n < 10 ^ ndigits n"
proof (induction n rule: ndigits.induct)
  case (1 n)
  show ?case
  proof (cases "n < 10")
    case True
    with "1.prems" show ?thesis by (subst (1 2) ndigits.simps) simp
  next
    case False
    then have pos: "0 < n div 10" by simp
    from "1.IH" [OF False pos]
    have lo: "10 ^ (ndigits (n div 10) - 1) \<le> n div 10" and hi: "n div 10 < 10 ^ ndigits (n div 10)"
      by simp_all
    have eq: "ndigits n = Suc (ndigits (n div 10))"
      using False by (subst ndigits.simps) simp
    have "10 * 10 ^ (ndigits (n div 10) - 1) \<le> 10 * (n div 10)" using lo by simp
    also have "\<dots> \<le> n" by simp
    finally have a: "10 ^ (ndigits n - 1) \<le> n"
      using ndigits_pos [of "n div 10"] unfolding eq
      by (cases "ndigits (n div 10)") simp_all
    have "n < 10 * (n div 10 + 1)" by presburger
    also have "\<dots> \<le> 10 * 10 ^ ndigits (n div 10)" using hi by simp
    finally have b: "n < 10 ^ ndigits n" unfolding eq by simp
    from a b show ?thesis by simp
  qed
qed

lemma adjusted_bounds:
  assumes "x \<noteq> 0"
  shows "10 powi adjusted x \<le> \<bar>x\<bar>" and "\<bar>x\<bar> < 10 powi (adjusted x + 1)"
proof -
  have "10 powi adjusted x \<le> \<bar>x\<bar> \<and> \<bar>x\<bar> < 10 powi (adjusted x + 1)"
  proof (cases "1 \<le> \<bar>x\<bar>")
    case True
    define n where "n = nat \<lfloor>\<bar>x\<bar>\<rfloor>"
    have n1: "0 < n" using True unfolding n_def by simp
    have adj: "adjusted x = int (ndigits n) - 1"
      using True by (simp add: adjusted_def n_def)
    from ndigits_bounds [OF n1]
    have lo: "10 ^ (ndigits n - 1) \<le> n" and hi: "n < 10 ^ ndigits n" by simp_all
    have fl0: "0 \<le> \<lfloor>\<bar>x\<bar>\<rfloor>" by simp
    have fl: "rat_of_nat n = of_int \<lfloor>\<bar>x\<bar>\<rfloor>"
      unfolding n_def using fl0 by (simp only: of_nat_nat)
    have nle: "rat_of_nat n \<le> \<bar>x\<bar>" unfolding fl by (rule of_int_floor_le)
    have xlt: "\<bar>x\<bar> < rat_of_nat n + 1" unfolding fl using floor_correct [of "\<bar>x\<bar>"] by simp
    have e1: "int (ndigits n) - 1 = int (ndigits n - 1)"
      using ndigits_pos [of n] by simp
    have "(10::rat) powi adjusted x = 10 ^ (ndigits n - 1)"
      unfolding adj e1 by (simp only: power_int_of_nat)
    also have "\<dots> = rat_of_nat (10 ^ (ndigits n - 1))" by simp
    also have "\<dots> \<le> rat_of_nat n" using lo by (simp only: of_nat_le_iff)
    finally have A: "10 powi adjusted x \<le> \<bar>x\<bar>" using nle by simp
    have "Suc n \<le> 10 ^ ndigits n" using hi by simp
    then have "rat_of_nat (Suc n) \<le> rat_of_nat (10 ^ ndigits n)" by (simp only: of_nat_le_iff)
    then have "rat_of_nat n + 1 \<le> 10 ^ ndigits n" by simp
    moreover have "(10::rat) powi (adjusted x + 1) = 10 ^ ndigits n"
      unfolding adj by (simp add: power_int_of_nat)
    ultimately have B: "\<bar>x\<bar> < 10 powi (adjusted x + 1)" using xlt by simp
    from A B show ?thesis by simp
  next
    case False
    define y where "y = 1 / \<bar>x\<bar>"
    have x0: "0 < \<bar>x\<bar>" using assms by simp
    have y1: "1 < y" using False x0 unfolding y_def by (simp add: field_simps)
    define k where "k = \<lceil>y\<rceil>"
    have k2: "2 \<le> k" using y1 unfolding k_def by (simp add: le_ceiling_iff)
    define n where "n = nat (k - 1)"
    have n1: "0 < n" using k2 unfolding n_def by simp
    have nk: "int n = k - 1" using k2 unfolding n_def by simp
    have adj: "adjusted x = - int (ndigits n)"
      using False by (simp add: adjusted_def n_def k_def y_def)
    from ndigits_bounds [OF n1]
    have lo: "10 ^ (ndigits n - 1) \<le> n" and hi: "n < 10 ^ ndigits n" by simp_all
    have yk: "y \<le> of_int k" unfolding k_def by (rule le_of_int_ceiling)
    have ky: "of_int k - 1 < y" unfolding k_def using ceiling_correct [of y] by simp
    have "int (Suc n) \<le> int (10 ^ ndigits n)" using hi by (simp only: of_nat_le_iff Suc_le_eq)
    then have "k \<le> 10 ^ ndigits n" using nk by simp
    then have "rat_of_int k \<le> rat_of_int (10 ^ ndigits n)" by (simp only: of_int_le_iff)
    then have "rat_of_int k \<le> 10 ^ ndigits n" by simp
    with yk have yle: "y \<le> 10 ^ ndigits n" by (rule order_trans)
    have "int (10 ^ (ndigits n - 1)) \<le> int n" using lo by (simp only: of_nat_le_iff)
    then have "int (10 ^ (ndigits n - 1)) \<le> k - 1" using nk by simp
    then have "rat_of_int (int (10 ^ (ndigits n - 1))) \<le> rat_of_int (k - 1)" by (simp only: of_int_le_iff)
    then have "10 ^ (ndigits n - 1) \<le> rat_of_int k - 1" by simp
    from this ky have ylo: "10 ^ (ndigits n - 1) < y" by (rule le_less_trans)
    have p1: "(10::rat) powi adjusted x = 1 / 10 ^ ndigits n"
      unfolding adj by (simp add: power_int_minus field_simps)
    have "adjusted x + 1 = - int (ndigits n - 1)" unfolding adj using ndigits_pos [of n] by simp
    then have p2: "(10::rat) powi (adjusted x + 1) = 1 / 10 ^ (ndigits n - 1)"
      by (simp add: power_int_minus field_simps)
    have xy: "\<bar>x\<bar> = 1 / y" unfolding y_def by simp
    have y0: "0 < y" using y1 by simp
    have A: "10 powi adjusted x \<le> \<bar>x\<bar>"
      unfolding p1 xy using yle y0 by (simp add: field_simps)
    have B: "\<bar>x\<bar> < 10 powi (adjusted x + 1)"
      unfolding p2 xy using ylo y0 by (simp add: field_simps)
    from A B show ?thesis by simp
  qed
  then show "10 powi adjusted x \<le> \<bar>x\<bar>" and "\<bar>x\<bar> < 10 powi (adjusted x + 1)" by simp_all
qed

lemma adjusted_unique:
  assumes lo: "10 powi e \<le> \<bar>x\<bar>" and hi: "\<bar>x\<bar> < 10 powi (e + 1)"
  shows "adjusted x = e"
proof -
  have "(0::rat) < 10 powi e" by (rule zero_less_power_int) simp
  from this lo have "0 < \<bar>x\<bar>" by (rule less_le_trans)
  then have x0: "x \<noteq> 0" by simp
  note b = adjusted_bounds [OF x0]
  have "adjusted x < e + 1"
  proof (rule ccontr)
    assume "\<not> adjusted x < e + 1"
    then have "e + 1 \<le> adjusted x" by simp
    then have "(10::rat) powi (e + 1) \<le> 10 powi adjusted x"
      by (intro power_int_increasing) simp_all
    with b(1) hi show False by simp
  qed
  moreover have "e < adjusted x + 1"
  proof (rule ccontr)
    assume "\<not> e < adjusted x + 1"
    then have "adjusted x + 1 \<le> e" by simp
    then have "(10::rat) powi (adjusted x + 1) \<le> 10 powi e"
      by (intro power_int_increasing) simp_all
    with b(2) lo show False by simp
  qed
  ultimately show ?thesis by simp
qed

lemma round_half_even_of_int: "round_half_even (of_int z) = z"
  by (simp add: round_half_even_def)

lemma round_half_even_cases:
  "round_half_even x = \<lfloor>x\<rfloor> \<or> round_half_even x = \<lfloor>x\<rfloor> + 1"
  by (simp add: round_half_even_def Let_def)

lemma round_half_even_mono:
  assumes "x \<le> y"
  shows "round_half_even x \<le> round_half_even y"
proof (cases "\<lfloor>x\<rfloor> < \<lfloor>y\<rfloor>")
  case True
  then show ?thesis
    using round_half_even_cases [of x] round_half_even_cases [of y] by linarith
next
  case False
  with assms have eq: "\<lfloor>x\<rfloor> = \<lfloor>y\<rfloor>"
    using floor_mono [of x y] by simp
  have "x - of_int \<lfloor>y\<rfloor> \<le> y - of_int \<lfloor>y\<rfloor>" using assms by simp
  then show ?thesis
    unfolding round_half_even_def Let_def eq by auto
qed

lemma round_half_even_minus: "round_half_even (- x) = - round_half_even x"
proof (cases "x \<in> \<int>")
  case True
  then obtain z where "x = of_int z" by (auto elim: Ints_cases)
  then have "- x = of_int (- z)" by simp
  then show ?thesis
    using round_half_even_of_int [of "- z"] round_half_even_of_int [of z] \<open>x = of_int z\<close>
    by simp
next
  case False
  then have ne: "x \<noteq> of_int \<lfloor>x\<rfloor>" by (metis Ints_of_int)
  then have fl: "\<lfloor>- x\<rfloor> = - \<lfloor>x\<rfloor> - 1"
    by (simp add: floor_minus ceiling_altdef)
  have a: "of_int \<lfloor>x\<rfloor> \<le> x" by (rule of_int_floor_le)
  from ne [symmetric] a have lt1: "of_int \<lfloor>x\<rfloor> < x"
    by (rule order.not_eq_order_implies_strict)
  have lt2: "x < of_int \<lfloor>x\<rfloor> + 1" using floor_correct [of x] by (simp only: of_int_add of_int_1)
  note lt = lt1 lt2
  show ?thesis
    using lt unfolding round_half_even_def Let_def fl by (auto simp: field_simps)
qed

lemma round_half_even_error: "\<bar>of_int (round_half_even x) - x\<bar> \<le> 1 / 2"
proof -
  define d where "d = x - of_int \<lfloor>x\<rfloor>"
  have a: "of_int \<lfloor>x\<rfloor> \<le> x" by (rule of_int_floor_le)
  have b: "x < of_int \<lfloor>x\<rfloor> + 1" using floor_correct [of x] by (simp only: of_int_add of_int_1)
  have d0: "0 \<le> d" "d < 1" using a b unfolding d_def by linarith+
  have r: "round_half_even x = \<lfloor>x\<rfloor> \<and> d \<le> 1 / 2 \<or> round_half_even x = \<lfloor>x\<rfloor> + 1 \<and> 1 / 2 \<le> d"
    unfolding round_half_even_def Let_def d_def [symmetric] by auto
  then show ?thesis
  proof
    assume h: "round_half_even x = \<lfloor>x\<rfloor> \<and> d \<le> 1 / 2"
    then have "of_int (round_half_even x) - x = - d" unfolding d_def by simp
    then show ?thesis using h d0 by simp
  next
    assume h: "round_half_even x = \<lfloor>x\<rfloor> + 1 \<and> 1 / 2 \<le> d"
    then have "of_int (round_half_even x) - x = 1 - d" unfolding d_def by simp
    then show ?thesis using h d0 by simp
  qed
qed


lemma adjusted_minus: "adjusted (- x) = adjusted x"
  by (simp add: adjusted_def)

lemma ctx_fix_minus: "ctx_fix (- x) = - ctx_fix x"
  by (simp add: ctx_fix_def adjusted_minus Let_def round_half_even_minus)

lemma ctx_fix_0: "ctx_fix 0 = 0"
  by (simp add: ctx_fix_def)

lemma pow10_split: "(10::rat) powi a = 10 ^ 27 * 10 powi (a - 27)"
proof -
  have "(10::rat) powi a = 10 powi (27 + (a - 27))" by simp
  also have "\<dots> = 10 powi 27 * 10 powi (a - 27)" by (rule power_int_add) simp
  finally show ?thesis by simp
qed

lemma pow10_split1: "(10::rat) powi (a + 1) = 10 ^ 28 * 10 powi (a - 27)"
proof -
  have "a + 1 = 28 + (a - 27)" by simp
  then have "(10::rat) powi (a + 1) = 10 powi (28 + (a - 27))" by (rule arg_cong)
  also have "\<dots> = 10 powi 28 * 10 powi (a - 27)" by (rule power_int_add) simp
  finally show ?thesis by simp
qed

lemma ctx_fix_pos_bounds:
  assumes "0 < x"
  shows "10 powi adjusted x \<le> ctx_fix x" and "ctx_fix x \<le> 10 powi (adjusted x + 1)"
proof -
  define q :: rat where "q = 10 powi (adjusted x - 27)"
  have q0: "0 < q" unfolding q_def by (rule zero_less_power_int) simp
  have x0: "x \<noteq> 0" using assms by simp
  have ax: "\<bar>x\<bar> = x" using assms by simp
  note b = adjusted_bounds [OF x0, unfolded ax]
  have fx: "ctx_fix x = of_int (round_half_even (x / q)) * q"
    using x0 by (simp add: ctx_fix_def Let_def q_def)
  have lo: "10 ^ 27 * q \<le> x" using b(1) unfolding q_def pow10_split [of "adjusted x"] .
  have hi: "x < 10 ^ 28 * q" using b(2) unfolding q_def pow10_split1 [of "adjusted x"] .
  have "rat_of_int (10 ^ 27) \<le> x / q" using lo q0 by (simp add: field_simps)
  then have "round_half_even (rat_of_int (10 ^ 27)) \<le> round_half_even (x / q)"
    by (rule round_half_even_mono)
  then have "10 ^ 27 \<le> round_half_even (x / q)" by (simp only: round_half_even_of_int)
  then have "rat_of_int (10 ^ 27) \<le> of_int (round_half_even (x / q))" by (simp only: of_int_le_iff)
  then have "10 ^ 27 * q \<le> of_int (round_half_even (x / q)) * q" using q0 by simp
  then show "10 powi adjusted x \<le> ctx_fix x"
    unfolding fx pow10_split [of "adjusted x"] q_def .
  have "x / q \<le> rat_of_int (10 ^ 28)" using hi q0 by (simp add: field_simps)
  then have "round_half_even (x / q) \<le> round_half_even (rat_of_int (10 ^ 28))"
    by (rule round_half_even_mono)
  then have "round_half_even (x / q) \<le> 10 ^ 28" by (simp only: round_half_even_of_int)
  then have "of_int (round_half_even (x / q)) \<le> rat_of_int (10 ^ 28)" by (simp only: of_int_le_iff)
  then have "of_int (round_half_even (x / q)) * q \<le> 10 ^ 28 * q" using q0 by simp
  then show "ctx_fix x \<le> 10 powi (adjusted x + 1)"
    unfolding fx pow10_split1 [of "adjusted x"] q_def .
qed

lemma ctx_fix_pos: "0 < x \<Longrightarrow> 0 < ctx_fix x"
proof -
  assume "0 < x"
  have "(0::rat) < 10 powi adjusted x" by (rule zero_less_power_int) simp
  also have "\<dots> \<le> ctx_fix x" using \<open>0 < x\<close> by (rule ctx_fix_pos_bounds)
  finally show ?thesis .
qed

lemma ctx_fix_mono_pos:
  assumes "0 < x" and "x \<le> y"
  shows "ctx_fix x \<le> ctx_fix y"
proof -
  have y0: "0 < y" using assms by simp
  have x0: "x \<noteq> 0" and y0': "y \<noteq> 0" using assms by simp_all
  have ax: "\<bar>x\<bar> = x" and ay: "\<bar>y\<bar> = y" using assms by simp_all
  note bx = adjusted_bounds [OF x0, unfolded ax]
  note by' = adjusted_bounds [OF y0', unfolded ay]
  have le: "adjusted x \<le> adjusted y"
  proof (rule ccontr)
    assume "\<not> adjusted x \<le> adjusted y"
    then have "adjusted y + 1 \<le> adjusted x" by simp
    then have "(10::rat) powi (adjusted y + 1) \<le> 10 powi adjusted x"
      by (intro power_int_increasing) simp_all
    with bx(1) by'(2) assms(2) show False by simp
  qed
  show ?thesis
  proof (cases "adjusted x = adjusted y")
    case True
    define q :: rat where "q = 10 powi (adjusted y - 27)"
    have q0: "0 < q" unfolding q_def by (rule zero_less_power_int) simp
    have "x / q \<le> y / q" using assms(2) q0 by (simp add: field_simps)
    then have "round_half_even (x / q) \<le> round_half_even (y / q)" by (rule round_half_even_mono)
    then have "rat_of_int (round_half_even (x / q)) \<le> of_int (round_half_even (y / q))"
      by (simp only: of_int_le_iff)
    then have "of_int (round_half_even (x / q)) * q \<le> of_int (round_half_even (y / q)) * q"
      using q0 by simp
    then show ?thesis using x0 y0' True by (simp add: ctx_fix_def Let_def q_def)
  next
    case False
    with le have "adjusted x + 1 \<le> adjusted y" by simp
    then have "(10::rat) powi (adjusted x + 1) \<le> 10 powi adjusted y"
      by (intro power_int_increasing) simp_all
    with ctx_fix_pos_bounds(2) [OF assms(1)] ctx_fix_pos_bounds(1) [OF y0]
    show ?thesis by simp
  qed
qed

lemma ctx_fix_mono:
  assumes "x \<le> y"
  shows "ctx_fix x \<le> ctx_fix y"
proof -
  consider "0 < x" | "x = 0" | "x < 0" "0 \<le> y" | "x < 0" "y < 0" by linarith
  then show ?thesis
  proof cases
    case 1
    then show ?thesis using assms by (rule ctx_fix_mono_pos)
  next
    case 2
    show ?thesis
    proof (cases "y = 0")
      case True
      with 2 show ?thesis by simp
    next
      case False
      with 2 assms have "0 < y" by simp
      then have "0 < ctx_fix y" by (rule ctx_fix_pos)
      with 2 show ?thesis by (simp add: ctx_fix_0)
    qed
  next
    case 3
    have "0 < - x" using 3 by simp
    then have "0 < ctx_fix (- x)" by (rule ctx_fix_pos)
    then have a: "ctx_fix x < 0" by (simp add: ctx_fix_minus)
    have "0 \<le> ctx_fix y"
    proof (cases "y = 0")
      case True
      then show ?thesis by (simp add: ctx_fix_0)
    next
      case False
      with 3 have "0 < y" by simp
      then show ?thesis using ctx_fix_pos [of y] by simp
    qed
    with a show ?thesis by simp
  next
    case 4
    have "0 < - y" and "- y \<le> - x" using 4 assms by simp_all
    then have "ctx_fix (- y) \<le> ctx_fix (- x)" by (rule ctx_fix_mono_pos)
    then show ?thesis by (simp add: ctx_fix_minus)
  qed
qed

lemma ctx_fix_exact:
  assumes x: "x = of_int m * 10 powi j" and m: "\<bar>m\<bar> < 10 ^ 28"
  shows "ctx_fix x = x"
proof (cases "x = 0")
  case True
  then show ?thesis by (simp add: ctx_fix_0)
next
  case False
  define a where "a = adjusted x"
  note b = adjusted_bounds [OF False, folded a_def]
  have p0: "(0::rat) < 10 powi j" by (rule zero_less_power_int) simp
  have "rat_of_int \<bar>m\<bar> < rat_of_int (10 ^ 28)" using m by (simp only: of_int_less_iff)
  then have "rat_of_int \<bar>m\<bar> < 10 ^ 28" by simp
  then have B: "rat_of_int \<bar>m\<bar> * 10 powi j < 10 ^ 28 * 10 powi j" using p0 by simp
  have A: "\<bar>x\<bar> = rat_of_int \<bar>m\<bar> * 10 powi j"
    unfolding x using p0 by (simp add: abs_mult)
  have C: "(10::rat) ^ 28 * 10 powi j = 10 powi (28 + j)"
  proof -
    have "(10::rat) powi (28 + j) = 10 powi 28 * 10 powi j" by (rule power_int_add) simp
    then show ?thesis by simp
  qed
  from B have "\<bar>x\<bar> < 10 powi (28 + j)" unfolding A C .
  with b(1) have "(10::rat) powi a < 10 powi (28 + j)" by simp
  have "a < 28 + j"
  proof (rule ccontr)
    assume "\<not> a < 28 + j"
    then have "28 + j \<le> a" by simp
    then have "(10::rat) powi (28 + j) \<le> 10 powi a"
      by (intro power_int_increasing) simp_all
    with \<open>(10::rat) powi a < 10 powi (28 + j)\<close> show False by simp
  qed
  then have k0: "0 \<le> j - (a - 27)" by simp
  define k where "k = nat (j - (a - 27))"
  have jk: "j = (a - 27) + int k" using k0 unfolding k_def by simp
  have "(10::rat) powi j = 10 powi (a - 27) * 10 powi int k"
    unfolding jk by (rule power_int_add) simp
  then have pj: "(10::rat) powi j = 10 powi (a - 27) * 10 ^ k" by simp
  have q0: "(10::rat) powi (a - 27) \<noteq> 0" by simp
  have "x / 10 powi (a - 27) = of_int m * 10 ^ k"
    unfolding x pj using q0 by simp
  also have "\<dots> = rat_of_int (m * 10 ^ k)" by simp
  finally have "round_half_even (x / 10 powi (a - 27)) = m * 10 ^ k"
    by (simp only: round_half_even_of_int)
  then have "ctx_fix x = rat_of_int (m * 10 ^ k) * 10 powi (a - 27)"
    using False by (simp add: ctx_fix_def Let_def a_def)
  also have "\<dots> = x" unfolding x pj by simp
  finally show ?thesis .
qed


lemma round_half_even_unique:
  assumes "\<bar>x - of_int z\<bar> < 1 / 2"
  shows "round_half_even x = z"
proof -
  have e: "\<bar>of_int (round_half_even x) - x\<bar> \<le> 1 / 2" by (rule round_half_even_error)
  have "\<bar>rat_of_int (round_half_even x) - of_int z\<bar> < 1" using e assms by linarith
  then have "\<bar>rat_of_int (round_half_even x - z)\<bar> < rat_of_int 1" by simp
  then have "\<bar>round_half_even x - z\<bar> < 1" by (simp only: of_int_abs [symmetric] of_int_less_iff)
  then show ?thesis by simp
qed

lemma round_half_even_tie:
  assumes "x = of_int z + 1 / 2"
  shows "round_half_even x = (if even z then z else z + 1)"
proof -
  have "\<lfloor>x\<rfloor> = z" unfolding assms by (rule floor_unique) simp_all
  then show ?thesis unfolding round_half_even_def Let_def by (simp add: assms)
qed

lemma round_half_up_of_int: "round_half_up (of_int z) = z"
proof -
  have "\<lfloor>rat_of_int z + 1 / 2\<rfloor> = z" by (rule floor_unique) simp_all
  moreover have "\<lfloor>- rat_of_int z + 1 / 2\<rfloor> = - z"
    using floor_unique [of "- z" "- rat_of_int z + 1 / 2"] by simp
  ultimately show ?thesis by (simp add: round_half_up_def)
qed

lemma round_half_up_minus: "round_half_up (- x) = - round_half_up x"
proof -
  have "\<lfloor>(1::rat) / 2\<rfloor> = 0" by (rule floor_unique) simp_all
  then show ?thesis by (simp add: round_half_up_def)
qed

lemma round_half_up_error: "\<bar>of_int (round_half_up x) - x\<bar> \<le> 1 / 2"
proof -
  have p: "\<bar>of_int \<lfloor>y + 1 / 2\<rfloor> - y\<bar> \<le> 1 / 2" for y :: rat
  proof -
    have "of_int \<lfloor>y + 1 / 2\<rfloor> \<le> y + 1 / 2" by (rule of_int_floor_le)
    moreover have "y + 1 / 2 < of_int \<lfloor>y + 1 / 2\<rfloor> + 1"
      using floor_correct [of "y + 1 / 2"] by (simp only: of_int_add of_int_1)
    ultimately show ?thesis by linarith
  qed
  show ?thesis
  proof (cases "0 \<le> x")
    case True
    then show ?thesis using p [of x] by (simp add: round_half_up_def)
  next
    case False
    then have r: "round_half_up x = - \<lfloor>- x + 1 / 2\<rfloor>"
      unfolding round_half_up_def by (simp only: if_False)
    show ?thesis unfolding r of_int_minus using p [of "- x"] by linarith
  qed
qed

lemma round_half_up_unique:
  assumes "\<bar>x - of_int z\<bar> < 1 / 2"
  shows "round_half_up x = z"
proof -
  have e: "\<bar>of_int (round_half_up x) - x\<bar> \<le> 1 / 2" by (rule round_half_up_error)
  have "\<bar>rat_of_int (round_half_up x) - of_int z\<bar> < 1" using e assms by linarith
  then have "\<bar>rat_of_int (round_half_up x - z)\<bar> < rat_of_int 1" by simp
  then have "\<bar>round_half_up x - z\<bar> < 1" by (simp only: of_int_abs [symmetric] of_int_less_iff)
  then show ?thesis by simp
qed

lemma round_half_up_tie:
  assumes "x = of_int z + 1 / 2" and "0 \<le> z"
  shows "round_half_up x = z + 1"
proof -
  have "0 \<le> x" using assms by simp
  moreover have "\<lfloor>x + 1 / 2\<rfloor> = z + 1" unfolding assms(1) by (rule floor_unique) simp_all
  ultimately show ?thesis by (simp add: round_half_up_def)
qed

lemma round_half_up_mono:
  assumes "x \<le> y"
  shows "round_half_up x \<le> round_half_up y"
proof -
  have m: "\<lfloor>a + 1 / 2\<rfloor> \<le> \<lfloor>b + 1 / 2\<rfloor>" if "a \<le> b" for a b :: rat
    using that by (intro floor_mono) simp
  have n: "0 \<le> \<lfloor>a + 1 / 2\<rfloor>" if "0 \<le> a" for a :: rat
    using that by simp
  consider "0 \<le> x" | "x < 0" "0 \<le> y" | "x < 0" "y < 0" by linarith
  then show ?thesis
  proof cases
    case 1
    then show ?thesis using assms m [of x y] by (simp add: round_half_up_def)
  next
    case 2
    then have "\<not> 0 \<le> x" by simp
    then have rx: "round_half_up x = - \<lfloor>- x + 1 / 2\<rfloor>"
      unfolding round_half_up_def by (simp only: if_False)
    have ry: "round_half_up y = \<lfloor>y + 1 / 2\<rfloor>"
      unfolding round_half_up_def using 2 by (simp only: if_True)
    have "0 \<le> - x" using 2 by simp
    then have a: "0 \<le> \<lfloor>- x + 1 / 2\<rfloor>" by (rule n)
    have b: "0 \<le> \<lfloor>y + 1 / 2\<rfloor>" using 2(2) by (rule n)
    show ?thesis unfolding rx ry using a b by linarith
  next
    case 3
    then show ?thesis using assms m [of "- y" "- x"] by (simp add: round_half_up_def)
  qed
qed

lemma ctx_fix_scaled:
  assumes "x * 10 ^ k = of_int m" and "\<bar>m\<bar> < 10 ^ 28"
  shows "ctx_fix x = x"
proof -
  have "x = of_int m / 10 ^ k" using assms(1) by (simp add: field_simps)
  also have "\<dots> = of_int m * 10 powi (- int k)" by (simp add: power_int_minus field_simps)
  finally show ?thesis using assms(2) by (rule ctx_fix_exact)
qed

lemma quantize_exact:
  assumes "x * 100 = of_int c" and "\<bar>c\<bar> < 10 ^ 28"
  shows "quantize x r = Inr x"
proof -
  have x: "x = of_int c / 100" using assms(1) by simp
  have "round_half_up (x * 100) = c" "round_half_even (x * 100) = c"
    unfolding assms(1) by (rule round_half_up_of_int, rule round_half_even_of_int)
  then show ?thesis using assms(2) unfolding quantize_def Let_def
    by (simp add: x split: option.split rounding.split)
qed

section \<open>The rounding utility\<close>

lemma to_decimal_Inr:
  assumes "to_decimal x = Inr y"
  shows "y = of_int (round_half_up (x * 100)) / 100" and "\<bar>round_half_up (x * 100)\<bar> < 10 ^ 28"
  using assms unfolding to_decimal_def quantize_def Let_def
  by (simp_all split: if_splits)

lemma to_decimal_fixed_point:
  assumes "to_decimal x = Inr y"
  shows "to_decimal y = Inr y"
proof -
  note h = to_decimal_Inr [OF assms]
  have "y * 100 = of_int (round_half_up (x * 100))" unfolding h(1) by simp
  then show ?thesis unfolding to_decimal_def using h(2) by (rule quantize_exact)
qed

lemma to_decimal_tie_away:
  assumes "to_decimal x = Inr y" and "\<bar>y - x\<bar> = 1 / 200"
  shows "\<bar>x\<bar> < \<bar>y\<bar>"
proof -
  define c where "c = round_half_up (x * 100)"
  have y: "y = of_int c / 100" unfolding c_def using assms(1) by (rule to_decimal_Inr)
  have d: "\<bar>of_int c - x * 100\<bar> = 1 / 2" using assms(2) unfolding y by (simp add: abs_if field_simps split: if_splits)
  have fl: "of_int \<lfloor>z\<rfloor> \<le> z \<and> z < of_int \<lfloor>z\<rfloor> + 1" for z :: rat
    using floor_correct [of z] by (simp only: of_int_add of_int_1)
  show ?thesis
  proof (cases "0 \<le> x * 100")
    case True
    then have c: "c = \<lfloor>x * 100 + 1 / 2\<rfloor>" unfolding c_def round_half_up_def by (simp only: if_True)
    have "x * 100 + 1 / 2 < of_int c + 1" unfolding c using fl [of "x * 100 + 1 / 2"] by simp
    with d have "of_int c - x * 100 = 1 / 2" by linarith
    then show ?thesis unfolding y using True by (simp add: abs_if field_simps split: if_splits)
  next
    case False
    then have c: "c = - \<lfloor>- (x * 100) + 1 / 2\<rfloor>" unfolding c_def round_half_up_def by (simp only: if_False)
    have "- (x * 100) + 1 / 2 < of_int (- c) + 1" unfolding c using fl [of "- (x * 100) + 1 / 2"] by simp
    with d have "of_int c - x * 100 = - 1 / 2" by (simp add: abs_if split: if_splits)
    then show ?thesis unfolding y using False by (simp add: abs_if field_simps split: if_splits)
  qed
qed

lemma to_decimal_2005: "to_decimal (2005 / 1000) = Inr (201 / 100)"
proof -
  have "(2005 / 1000 :: rat) * 100 = of_int 200 + 1 / 2" by simp
  then have "round_half_up (2005 / 1000 * 100) = 200 + 1" by (rule round_half_up_tie) simp
  then show ?thesis unfolding to_decimal_def quantize_def Let_def by simp
qed

text \<open>
  Claim C7. \<^verbatim>\<open>to_decimal\<close> rounds the exact decimal value of its input to two fractional
  digits: the result is a whole number of hundredths at most half a hundredth from the
  input, and a tie goes to the neighbour of larger magnitude, so that \<open>2.005\<close> gives
  \<open>2.01\<close>. A result is a fixed point, and an input on which the call raises raises again,
  so rounding twice is rounding once.
\<close>

theorem to_decimal_half_up_idempotent:
  "to_decimal (2005 / 1000) = Inr (201 / 100) \<and>
   (\<forall>x y. to_decimal x = Inr y \<longrightarrow>
      y * 100 \<in> \<int> \<and> \<bar>y - x\<bar> \<le> 1 / 200 \<and> (\<bar>y - x\<bar> = 1 / 200 \<longrightarrow> \<bar>x\<bar> < \<bar>y\<bar>) \<and>
      to_decimal y = Inr y) \<and>
   (\<forall>x. bind_err (to_decimal x) to_decimal = to_decimal x)"
proof (intro conjI allI impI)
  show "to_decimal (2005 / 1000) = Inr (201 / 100)" by (rule to_decimal_2005)
next
  fix x y assume h: "to_decimal x = Inr y"
  note e = to_decimal_Inr [OF h]
  show "y * 100 \<in> \<int>" unfolding e(1) by simp
  have "\<bar>of_int (round_half_up (x * 100)) - x * 100\<bar> \<le> 1 / 2" by (rule round_half_up_error)
  then show "\<bar>y - x\<bar> \<le> 1 / 200" unfolding e(1) by (simp add: abs_if field_simps split: if_splits)
  show "to_decimal y = Inr y" using h by (rule to_decimal_fixed_point)
next
  fix x y assume "to_decimal x = Inr y" and "\<bar>y - x\<bar> = 1 / 200"
  then show "\<bar>x\<bar> < \<bar>y\<bar>" by (rule to_decimal_tie_away)
next
  fix x
  show "bind_err (to_decimal x) to_decimal = to_decimal x"
  proof (cases "to_decimal x")
    case (Inl e)
    then show ?thesis by (simp add: bind_err_def)
  next
    case (Inr y)
    then show ?thesis using to_decimal_fixed_point [OF Inr] by (simp add: bind_err_def)
  qed
qed

theorem to_decimal_half_up_idempotent_witness:
  "to_decimal (2005 / 1000) = Inr (201 / 100) \<and> to_decimal (201 / 100) = Inr (201 / 100) \<and>
   \<bar>(201 / 100 :: rat) - 2005 / 1000\<bar> = 1 / 200 \<and> \<bar>2005 / 1000 :: rat\<bar> < \<bar>201 / 100\<bar>"
proof -
  have a: "to_decimal (2005 / 1000) = Inr (201 / 100)"
    using to_decimal_half_up_idempotent by (rule conjunct1)
  have "to_decimal (201 / 100) = Inr (201 / 100)"
    using to_decimal_half_up_idempotent a by blast
  with a show ?thesis by simp
qed

section \<open>Unknown employee\<close>

lemma find_absent: "k \<notin> f ` set xs \<Longrightarrow> find (\<lambda>r. f r = k) xs = None"
  by (induction xs) auto

text \<open>
  Claim C5. For an employee code that no row of \<^verbatim>\<open>employees\<close> carries, \<^verbatim>\<open>compute_pay\<close>
  raises the error of the lookup, \<^verbatim>\<open>ValueError('Employee not found')\<close>, and leaves the
  database as it was: no row is appended to \<^verbatim>\<open>payslips\<close>.
\<close>

theorem compute_pay_unknown_employee:
  assumes "emp_code \<notin> e_emp_code ` set (employees conn)"
  shows "compute_pay conn emp_code month now_month now_iso =
           (Inl (ValueError ''Employee not found''), conn) \<and>
         length (payslips (snd (compute_pay conn emp_code month now_month now_iso))) =
           length (payslips conn)"
proof -
  have "get_employee_by_code conn emp_code = None"
    unfolding get_employee_by_code_def using assms by (rule find_absent)
  then have "compute_pay conn emp_code month now_month now_iso =
           (Inl (ValueError ''Employee not found''), conn)"
    by (simp add: compute_pay_def)
  then show ?thesis by simp
qed

theorem compute_pay_unknown_employee_witness:
  "''E2'' \<notin> e_emp_code ` set (employees \<lparr>employees = [\<lparr>e_id = 1, e_emp_code = ''E1'', e_name = ''A'',
        e_designation = ''D'', e_basic = 30000, e_hra_percent = 20, e_da_percent = 0,
        e_other_allowances = 0\<rparr>], payslips = []\<rparr>) \<and>
   compute_pay \<lparr>employees = [\<lparr>e_id = 1, e_emp_code = ''E1'', e_name = ''A'',
        e_designation = ''D'', e_basic = 30000, e_hra_percent = 20, e_da_percent = 0,
        e_other_allowances = 0\<rparr>], payslips = []\<rparr> ''E2'' None ''2025-01'' ''2025-01-31T10:00:00'' =
     (Inl (ValueError ''Employee not found''),
      \<lparr>employees = [\<lparr>e_id = 1, e_emp_code = ''E1'', e_name = ''A'',
        e_designation = ''D'', e_basic = 30000, e_hra_percent = 20, e_da_percent = 0,
        e_other_allowances = 0\<rparr>], payslips = []\<rparr>)"
proof -
  have h: "''E2'' \<notin> e_emp_code ` set (employees \<lparr>employees = [\<lparr>e_id = 1, e_emp_code = ''E1'', e_name = ''A'',
        e_designation = ''D'', e_basic = 30000, e_hra_percent = 20, e_da_percent = 0,
        e_other_allowances = 0\<rparr>], payslips = []\<rparr>)" by simp
  from h compute_pay_unknown_employee [OF h] show ?thesis by blast
qed

section \<open>The tax calculator\<close>

lemma ctx_fix_small:
  assumes "x * 10000 \<in> \<int>" and "\<bar>x\<bar> < 10 ^ 24"
  shows "ctx_fix x = x"
proof -
  from assms(1) obtain m where m: "x * 10000 = of_int m" by (auto elim: Ints_cases)
  have "\<bar>x * 10000\<bar> < 10 ^ 28" using assms(2) by (simp add: abs_mult)
  then have "\<bar>rat_of_int m\<bar> < rat_of_int (10 ^ 28)" unfolding m by simp
  then have "\<bar>m\<bar> < 10 ^ 28" by (simp only: of_int_abs [symmetric] of_int_less_iff)
  moreover have "x * 10 ^ 4 = of_int m" using m by simp
  ultimately show ?thesis by (rule ctx_fix_scaled [rotated])
qed

lemma ctx_fix_ge:
  assumes "c \<le> x" and "c * 10000 \<in> \<int>" and "\<bar>c\<bar> < 10 ^ 24"
  shows "c \<le> ctx_fix x"
  using ctx_fix_mono [OF assms(1)] ctx_fix_small [OF assms(2,3)] by simp

lemma ctx_fix_le:
  assumes "x \<le> c" and "c * 10000 \<in> \<int>" and "\<bar>c\<bar> < 10 ^ 24"
  shows "ctx_fix x \<le> c"
  using ctx_fix_mono [OF assms(1)] ctx_fix_small [OF assms(2,3)] by simp

lemma cents_shift:
  fixes x :: rat
  assumes "x * 100 \<in> \<int>"
  shows "(x - of_int n) * 10000 \<in> \<int>" and "(x - of_int n) * (of_int r / 100) * 10000 \<in> \<int>"
proof -
  from assms obtain m where m: "x * 100 = of_int m" by (auto elim: Ints_cases)
  have x: "x = of_int m / 100" using m by simp
  have "(x - of_int n) * 10000 = of_int ((m - n * 100) * 100)" unfolding x by simp
  then show "(x - of_int n) * 10000 \<in> \<int>" by (simp only: Ints_of_int)
  have "(x - of_int n) * (of_int r / 100) * 10000 = of_int ((m - n * 100) * r)" unfolding x by simp
  then show "(x - of_int n) * (of_int r / 100) * 10000 \<in> \<int>" by (simp only: Ints_of_int)
qed

lemma slab_loop_nonpositive:
  assumes "taxable_income \<le> 0" and "0 \<le> prev_limit" and "list_all (\<lambda>s. 0 \<le> fst s) slabs"
  shows "slab_loop slabs tax prev_limit taxable_income = tax"
  using assms(2,3)
proof (induction slabs arbitrary: prev_limit)
  case Nil
  show ?case by simp
next
  case (Cons s slabs)
  obtain limit rate where s: "s = (limit, rate)" by (cases s)
  have "taxable_income - prev_limit \<le> 0" using assms(1) Cons.prems(1) by simp
  then have "ctx_fix (taxable_income - prev_limit) \<le> ctx_fix 0" by (rule ctx_fix_mono)
  then have "dec_sub taxable_income prev_limit \<le> 0" by (simp add: dec_sub_def ctx_fix_0)
  then have "min (dec_sub limit prev_limit) (dec_sub taxable_income prev_limit) \<le> 0" by simp
  moreover have "slab_loop slabs tax limit taxable_income = tax"
    using Cons.prems(2) by (intro Cons.IH) (simp_all add: s)
  ultimately show ?case by (simp add: s Let_def)
qed

lemma to_decimal_cents:
  assumes "x * 100 \<in> \<int>" and "\<bar>x\<bar> < 10 ^ 26"
  shows "to_decimal x = Inr x"
proof -
  from assms(1) obtain m where m: "x * 100 = of_int m" by (auto elim: Ints_cases)
  have "\<bar>x * 100\<bar> < 10 ^ 28" using assms(2) by (simp add: abs_mult)
  then have "\<bar>rat_of_int m\<bar> < rat_of_int (10 ^ 28)" unfolding m by simp
  then have "\<bar>m\<bar> < 10 ^ 28" by (simp only: of_int_abs [symmetric] of_int_less_iff)
  with m show ?thesis unfolding to_decimal_def by (rule quantize_exact)
qed

lemma income_tax_annually_nonpositive:
  assumes "taxable_income \<le> 0"
  shows "income_tax_annually taxable_income = Inr 0"
proof -
  have "slab_loop TAX_SLABS 0 0 taxable_income = 0"
    using assms by (rule slab_loop_nonpositive) (simp_all add: TAX_SLABS_def)
  then show ?thesis unfolding income_tax_annually_def by (simp add: to_decimal_cents)
qed

lemma slab_step_continue:
  assumes "min (dec_sub limit prev_limit) (dec_sub taxable_income prev_limit) = a"
    and "0 < a" and "limit < taxable_income"
  shows "slab_loop ((limit, rate) # slabs) tax prev_limit taxable_income =
           slab_loop slabs (dec_add tax (dec_mul a rate)) limit taxable_income"
  using assms by (simp add: Let_def)

lemma slab_step_break:
  assumes "min (dec_sub limit prev_limit) (dec_sub taxable_income prev_limit) = a"
    and "0 < a" and "taxable_income \<le> limit"
  shows "slab_loop ((limit, rate) # slabs) tax prev_limit taxable_income =
           dec_add tax (dec_mul a rate)"
  using assms by (simp add: Let_def)

lemma slab_amount_full:
  assumes "limit \<le> taxable_income"
    and "(limit - prev_limit) * 10000 \<in> \<int>" and "\<bar>limit - prev_limit\<bar> < 10 ^ 24"
  shows "min (dec_sub limit prev_limit) (dec_sub taxable_income prev_limit) = limit - prev_limit"
proof -
  have "limit - prev_limit \<le> taxable_income - prev_limit" using assms(1) by simp
  then have "limit - prev_limit \<le> ctx_fix (taxable_income - prev_limit)"
    using assms(2,3) by (rule ctx_fix_ge)
  moreover have "ctx_fix (limit - prev_limit) = limit - prev_limit"
    using assms(2,3) by (rule ctx_fix_small)
  ultimately show ?thesis by (simp add: dec_sub_def)
qed

lemma slab_amount_part:
  assumes "taxable_income \<le> limit"
    and "(taxable_income - prev_limit) * 10000 \<in> \<int>" and "\<bar>taxable_income - prev_limit\<bar> < 10 ^ 24"
  shows "min (dec_sub limit prev_limit) (dec_sub taxable_income prev_limit) =
           taxable_income - prev_limit"
proof -
  have "taxable_income - prev_limit \<le> limit - prev_limit" using assms(1) by simp
  then have "ctx_fix (taxable_income - prev_limit) \<le> ctx_fix (limit - prev_limit)"
    by (rule ctx_fix_mono)
  moreover have "ctx_fix (taxable_income - prev_limit) = taxable_income - prev_limit"
    using assms(2,3) by (rule ctx_fix_small)
  ultimately show ?thesis by (simp add: dec_sub_def)
qed

lemma tax_add:
  assumes "(a * rate) * 10000 \<in> \<int>" and "\<bar>a * rate\<bar> < 10 ^ 24"
    and "(tax + a * rate) * 10000 \<in> \<int>" and "\<bar>tax + a * rate\<bar> < 10 ^ 24"
  shows "dec_add tax (dec_mul a rate) = tax + a * rate"
  unfolding dec_add_def dec_mul_def ctx_fix_small [OF assms(1,2)] using assms(3,4)
  by (rule ctx_fix_small)

lemma slab_first:
  assumes "0 < taxable_income"
  shows "min (dec_sub 250000 0) (dec_sub taxable_income 0) > 0"
    and "dec_add 0 (dec_mul (min (dec_sub 250000 0) (dec_sub taxable_income 0)) 0) = 0"
proof -
  have "0 < ctx_fix taxable_income" using assms by (rule ctx_fix_pos)
  moreover have "ctx_fix 250000 = 250000" by (rule ctx_fix_small) simp_all
  ultimately show "min (dec_sub 250000 0) (dec_sub taxable_income 0) > 0"
    by (simp add: dec_sub_def)
  show "dec_add 0 (dec_mul (min (dec_sub 250000 0) (dec_sub taxable_income 0)) 0) = 0"
    by (simp add: dec_add_def dec_mul_def ctx_fix_0)
qed

lemma slab_loop_first:
  assumes "0 < taxable_income"
  shows "slab_loop ((250000, 0) # slabs) 0 0 taxable_income =
           (if taxable_income \<le> 250000 then 0 else slab_loop slabs 0 250000 taxable_income)"
proof -
  define a where "a = min (dec_sub 250000 0) (dec_sub taxable_income 0)"
  have a0: "\<not> a \<le> 0" using slab_first(1) [OF assms] unfolding a_def by (simp only: not_le)
  have t: "dec_add 0 (dec_mul a 0) = 0" using slab_first(2) [OF assms] unfolding a_def .
  show ?thesis
    unfolding slab_loop.simps Let_def a_def [symmetric] by (simp only: a0 t if_False)
qed

lemma tax_region1:
  assumes "0 < taxable_income" and "taxable_income \<le> 250000"
  shows "slab_loop TAX_SLABS 0 0 taxable_income = 0"
  unfolding TAX_SLABS_def by (simp only: slab_loop_first [OF assms(1)] assms(2) if_True)

lemma tax_region2:
  assumes c: "taxable_income * 100 \<in> \<int>"
    and "250000 < taxable_income" and "taxable_income \<le> 500000"
  shows "slab_loop TAX_SLABS 0 0 taxable_income = (taxable_income - 250000) * (5 / 100)"
proof -
  have p: "0 < taxable_income" using assms by simp
  have n: "\<not> taxable_income \<le> 250000" using assms by simp
  have i1: "(taxable_income - 250000) * 10000 \<in> \<int>"
    using cents_shift(1) [OF c, of 250000] by simp
  have i2: "(taxable_income - 250000) * (5 / 100) * 10000 \<in> \<int>"
    using cents_shift(2) [OF c, of 250000 5] by simp
  have b1: "\<bar>taxable_income - 250000\<bar> < 10 ^ 24" using assms by simp
  have b2: "\<bar>(taxable_income - 250000) * (5 / 100)\<bar> < 10 ^ 24" using assms by simp
  have a: "min (dec_sub 500000 250000) (dec_sub taxable_income 250000) = taxable_income - 250000"
    using assms(3) i1 b1 by (rule slab_amount_part)
  have "slab_loop TAX_SLABS 0 0 taxable_income =
          slab_loop [(500000, 5 / 100), (1000000, 2 / 10), (999999999, 3 / 10)] 0 250000 taxable_income"
    unfolding TAX_SLABS_def by (simp only: slab_loop_first [OF p] n if_False)
  also have "\<dots> = dec_add 0 (dec_mul (taxable_income - 250000) (5 / 100))"
    using a by (rule slab_step_break) (use assms in simp_all)
  also have "\<dots> = 0 + (taxable_income - 250000) * (5 / 100)"
    by (rule tax_add) (use i2 b2 in simp_all)
  finally show ?thesis by simp
qed


lemma slab_loop_second:
  assumes "500000 < taxable_income"
  shows "slab_loop ((500000, 5 / 100) # slabs) 0 250000 taxable_income =
           slab_loop slabs 12500 500000 taxable_income"
proof -
  have "500000 \<le> taxable_income" using assms by simp
  then have a: "min (dec_sub 500000 250000) (dec_sub taxable_income 250000) = 500000 - 250000"
    by (rule slab_amount_full) simp_all
  have t: "dec_add 0 (dec_mul (500000 - 250000) (5 / 100)) = 0 + (500000 - 250000) * (5 / 100)"
    by (rule tax_add) simp_all
  have "slab_loop ((500000, 5 / 100) # slabs) 0 250000 taxable_income =
          slab_loop slabs (dec_add 0 (dec_mul (500000 - 250000) (5 / 100))) 500000 taxable_income"
    using a by (rule slab_step_continue) (use assms in simp_all)
  then show ?thesis unfolding t by simp
qed

lemma slab_loop_third:
  assumes "1000000 < taxable_income"
  shows "slab_loop ((1000000, 2 / 10) # slabs) 12500 500000 taxable_income =
           slab_loop slabs 112500 1000000 taxable_income"
proof -
  have "1000000 \<le> taxable_income" using assms by simp
  then have a: "min (dec_sub 1000000 500000) (dec_sub taxable_income 500000) = 1000000 - 500000"
    by (rule slab_amount_full) simp_all
  have t: "dec_add 12500 (dec_mul (1000000 - 500000) (2 / 10)) = 12500 + (1000000 - 500000) * (2 / 10)"
    by (rule tax_add) simp_all
  have "slab_loop ((1000000, 2 / 10) # slabs) 12500 500000 taxable_income =
          slab_loop slabs (dec_add 12500 (dec_mul (1000000 - 500000) (2 / 10))) 1000000 taxable_income"
    using a by (rule slab_step_continue) (use assms in simp_all)
  then show ?thesis unfolding t by simp
qed

lemma tax_region3:
  assumes c: "taxable_income * 100 \<in> \<int>"
    and "500000 < taxable_income" and "taxable_income \<le> 1000000"
  shows "slab_loop TAX_SLABS 0 0 taxable_income = 12500 + (taxable_income - 500000) * (2 / 10)"
proof -
  have p: "0 < taxable_income" using assms by simp
  have n: "\<not> taxable_income \<le> 250000" using assms by simp
  have i1: "(taxable_income - 500000) * 10000 \<in> \<int>"
    using cents_shift(1) [OF c, of 500000] by simp
  have i2: "(taxable_income - 500000) * (2 / 10) * 10000 \<in> \<int>"
    using cents_shift(2) [OF c, of 500000 20] by simp
  have i3: "(12500 + (taxable_income - 500000) * (2 / 10)) * 10000 \<in> \<int>"
    using Ints_add [OF Ints_of_int [of 125000000] i2] by (simp add: algebra_simps)
  have b1: "\<bar>taxable_income - 500000\<bar> < 10 ^ 24" using assms by simp
  have b2: "\<bar>(taxable_income - 500000) * (2 / 10)\<bar> < 10 ^ 24" using assms by simp
  have b3: "\<bar>12500 + (taxable_income - 500000) * (2 / 10)\<bar> < 10 ^ 24" using assms by simp
  have a: "min (dec_sub 1000000 500000) (dec_sub taxable_income 500000) = taxable_income - 500000"
    using assms(3) i1 b1 by (rule slab_amount_part)
  have "slab_loop TAX_SLABS 0 0 taxable_income =
          slab_loop [(500000, 5 / 100), (1000000, 2 / 10), (999999999, 3 / 10)] 0 250000 taxable_income"
    unfolding TAX_SLABS_def by (simp only: slab_loop_first [OF p] n if_False)
  also have "\<dots> = slab_loop [(1000000, 2 / 10), (999999999, 3 / 10)] 12500 500000 taxable_income"
    using assms(2) by (rule slab_loop_second)
  also have "\<dots> = dec_add 12500 (dec_mul (taxable_income - 500000) (2 / 10))"
    using a by (rule slab_step_break) (use assms in simp_all)
  also have "\<dots> = 12500 + (taxable_income - 500000) * (2 / 10)"
    using i2 b2 i3 b3 by (rule tax_add)
  finally show ?thesis .
qed

lemma tax_region4:
  assumes c: "taxable_income * 100 \<in> \<int>"
    and "1000000 < taxable_income" and "taxable_income \<le> 999999999"
  shows "slab_loop TAX_SLABS 0 0 taxable_income = 112500 + (taxable_income - 1000000) * (3 / 10)"
proof -
  have p: "0 < taxable_income" using assms by simp
  have n: "\<not> taxable_income \<le> 250000" using assms by simp
  have q: "500000 < taxable_income" using assms by simp
  have i1: "(taxable_income - 1000000) * 10000 \<in> \<int>"
    using cents_shift(1) [OF c, of 1000000] by simp
  have i2: "(taxable_income - 1000000) * (3 / 10) * 10000 \<in> \<int>"
    using cents_shift(2) [OF c, of 1000000 30] by simp
  have i3: "(112500 + (taxable_income - 1000000) * (3 / 10)) * 10000 \<in> \<int>"
    using Ints_add [OF Ints_of_int [of 1125000000] i2] by (simp add: algebra_simps)
  have b1: "\<bar>taxable_income - 1000000\<bar> < 10 ^ 24" using assms by simp
  have b2: "\<bar>(taxable_income - 1000000) * (3 / 10)\<bar> < 10 ^ 24" using assms by simp
  have b3: "\<bar>112500 + (taxable_income - 1000000) * (3 / 10)\<bar> < 10 ^ 24" using assms by simp
  have a: "min (dec_sub 999999999 1000000) (dec_sub taxable_income 1000000) = taxable_income - 1000000"
    using assms(3) i1 b1 by (rule slab_amount_part)
  have "slab_loop TAX_SLABS 0 0 taxable_income =
          slab_loop [(500000, 5 / 100), (1000000, 2 / 10), (999999999, 3 / 10)] 0 250000 taxable_income"
    unfolding TAX_SLABS_def by (simp only: slab_loop_first [OF p] n if_False)
  also have "\<dots> = slab_loop [(1000000, 2 / 10), (999999999, 3 / 10)] 12500 500000 taxable_income"
    using q by (rule slab_loop_second)
  also have "\<dots> = slab_loop [(999999999, 3 / 10)] 112500 1000000 taxable_income"
    using assms(2) by (rule slab_loop_third)
  also have "\<dots> = dec_add 112500 (dec_mul (taxable_income - 1000000) (3 / 10))"
    using a by (rule slab_step_break) (use assms in simp_all)
  also have "\<dots> = 112500 + (taxable_income - 1000000) * (3 / 10)"
    using i2 b2 i3 b3 by (rule tax_add)
  finally show ?thesis .
qed

lemma tax_region5:
  assumes "999999999 < taxable_income"
  shows "slab_loop TAX_SLABS 0 0 taxable_income = 2998124997 / 10"
proof -
  have p: "0 < taxable_income" using assms by simp
  have n: "\<not> taxable_income \<le> 250000" using assms by simp
  have q: "500000 < taxable_income" and r: "1000000 < taxable_income" using assms by simp_all
  have "999999999 \<le> taxable_income" using assms by simp
  then have a: "min (dec_sub 999999999 1000000) (dec_sub taxable_income 1000000) = 999999999 - 1000000"
    by (rule slab_amount_full) simp_all
  have t: "dec_add 112500 (dec_mul (999999999 - 1000000) (3 / 10)) =
             112500 + (999999999 - 1000000) * (3 / 10)"
    by (rule tax_add) simp_all
  have "slab_loop TAX_SLABS 0 0 taxable_income =
          slab_loop [(500000, 5 / 100), (1000000, 2 / 10), (999999999, 3 / 10)] 0 250000 taxable_income"
    unfolding TAX_SLABS_def by (simp only: slab_loop_first [OF p] n if_False)
  also have "\<dots> = slab_loop [(1000000, 2 / 10), (999999999, 3 / 10)] 12500 500000 taxable_income"
    using q by (rule slab_loop_second)
  also have "\<dots> = slab_loop [(999999999, 3 / 10)] 112500 1000000 taxable_income"
    using r by (rule slab_loop_third)
  also have "\<dots> = slab_loop [] (dec_add 112500 (dec_mul (999999999 - 1000000) (3 / 10)))
                        999999999 taxable_income"
    using a by (rule slab_step_continue) (use assms in simp_all)
  also have "\<dots> = 2998124997 / 10" unfolding t by simp
  finally show ?thesis .
qed

lemma tax_at_250000: "slab_loop TAX_SLABS 0 0 250000 = 0"
  by (rule tax_region1) simp_all

lemma tax_at_500000: "slab_loop TAX_SLABS 0 0 500000 = 12500"
proof -
  have "slab_loop TAX_SLABS 0 0 500000 = (500000 - 250000) * (5 / 100)"
    by (rule tax_region2) simp_all
  then show ?thesis by simp
qed

lemma tax_at_1000000: "slab_loop TAX_SLABS 0 0 1000000 = 112500"
proof -
  have "slab_loop TAX_SLABS 0 0 1000000 = 12500 + (1000000 - 500000) * (2 / 10)"
    by (rule tax_region3) simp_all
  then show ?thesis by simp
qed

lemma tax_at_999999999: "slab_loop TAX_SLABS 0 0 999999999 = 2998124997 / 10"
proof -
  have "slab_loop TAX_SLABS 0 0 999999999 = 112500 + (999999999 - 1000000) * (3 / 10)"
    by (rule tax_region4) simp_all
  then show ?thesis by simp
qed

lemma to_decimal_top: "to_decimal (2998124997 / 10) = Inr (2998124997 / 10)"
  by (rule to_decimal_cents) simp_all

text \<open>
  Claim C9. For a taxable income of zero or less every slab contributes nothing: the
  accumulated tax stays \<open>0\<close> and \<^verbatim>\<open>income_tax_annually\<close> returns \<open>0.00\<close> without raising.
\<close>

theorem income_tax_annually_nonpositive_zero:
  assumes "taxable_income \<le> 0"
  shows "slab_loop TAX_SLABS 0 0 taxable_income = 0 \<and> income_tax_annually taxable_income = Inr 0"
proof
  show "slab_loop TAX_SLABS 0 0 taxable_income = 0"
    using assms by (rule slab_loop_nonpositive) (simp_all add: TAX_SLABS_def)
  show "income_tax_annually taxable_income = Inr 0"
    using assms by (rule income_tax_annually_nonpositive)
qed

theorem income_tax_annually_nonpositive_zero_witness:
  "(- 49994 :: rat) \<le> 0 \<and> slab_loop TAX_SLABS 0 0 (- 49994) = 0 \<and>
   income_tax_annually (- 49994) = Inr 0"
proof -
  have h: "(- 49994 :: rat) \<le> 0" by simp
  from h income_tax_annually_nonpositive_zero [OF h] show ?thesis by blast
qed

text \<open>
  Claim C10. Above the last ceiling \<open>999999999\<close> no further tax accrues: the last slab's
  amount is capped at \<open>999999999 - 1000000\<close>, so every larger income owes what
  \<open>999999999\<close> owes, \<open>299812499.70\<close>.
\<close>

theorem income_tax_annually_capped:
  assumes "999999999 < taxable_income"
  shows "income_tax_annually taxable_income = income_tax_annually 999999999 \<and>
         income_tax_annually taxable_income = Inr (2998124997 / 10)"
proof -
  have "income_tax_annually taxable_income = Inr (2998124997 / 10)"
    unfolding income_tax_annually_def tax_region5 [OF assms] by (rule to_decimal_top)
  moreover have "income_tax_annually 999999999 = Inr (2998124997 / 10)"
    unfolding income_tax_annually_def tax_at_999999999 by (rule to_decimal_top)
  ultimately show ?thesis by simp
qed

theorem income_tax_annually_capped_witness:
  "(999999999 :: rat) < 2000000000 \<and>
   income_tax_annually 2000000000 = income_tax_annually 999999999 \<and>
   income_tax_annually 2000000000 = Inr (2998124997 / 10)"
proof -
  have h: "(999999999 :: rat) < 2000000000" by simp
  from h income_tax_annually_capped [OF h] show ?thesis by blast
qed

lemma marginal_after_ceiling:
  assumes i: "Suc i < length TAX_SLABS" and d0: "0 \<le> d" and dc: "d * 100 \<in> \<int>"
    and le: "fst (TAX_SLABS ! i) + d \<le> fst (TAX_SLABS ! Suc i)"
  shows "slab_loop TAX_SLABS 0 0 (fst (TAX_SLABS ! i) + d) =
           slab_loop TAX_SLABS 0 0 (fst (TAX_SLABS ! i)) + d * snd (TAX_SLABS ! Suc i)"
proof (cases "d = 0")
  case True
  then show ?thesis by simp
next
  case False
  with d0 have d: "0 < d" by simp
  from i have "i = 0 \<or> i = 1 \<or> i = 2" by (auto simp: TAX_SLABS_def)
  then consider "i = 0" | "i = 1" | "i = 2" by blast
  then show ?thesis
  proof cases
    case 1
    have c: "fst (TAX_SLABS ! i) = 250000" "fst (TAX_SLABS ! Suc i) = 500000"
      "snd (TAX_SLABS ! Suc i) = 5 / 100" unfolding 1 by (simp_all add: TAX_SLABS_def)
    have "(250000 + d) * 100 \<in> \<int>" using Ints_add [OF Ints_of_int [of 25000000] dc] by (simp add: algebra_simps)
    then have "slab_loop TAX_SLABS 0 0 (250000 + d) = (250000 + d - 250000) * (5 / 100)"
      by (rule tax_region2) (use d le c in simp_all)
    then show ?thesis unfolding c tax_at_250000 by simp
  next
    case 2
    have c: "fst (TAX_SLABS ! i) = 500000" "fst (TAX_SLABS ! Suc i) = 1000000"
      "snd (TAX_SLABS ! Suc i) = 2 / 10" unfolding 2 by (simp_all add: TAX_SLABS_def)
    have "(500000 + d) * 100 \<in> \<int>" using Ints_add [OF Ints_of_int [of 50000000] dc] by (simp add: algebra_simps)
    then have "slab_loop TAX_SLABS 0 0 (500000 + d) = 12500 + (500000 + d - 500000) * (2 / 10)"
      by (rule tax_region3) (use d le c in simp_all)
    then show ?thesis unfolding c tax_at_500000 by simp
  next
    case 3
    have c: "fst (TAX_SLABS ! i) = 1000000" "fst (TAX_SLABS ! Suc i) = 999999999"
      "snd (TAX_SLABS ! Suc i) = 3 / 10" unfolding 3 by (simp_all add: TAX_SLABS_def numeral_2_eq_2)
    have "(1000000 + d) * 100 \<in> \<int>" using Ints_add [OF Ints_of_int [of 100000000] dc] by (simp add: algebra_simps)
    then have "slab_loop TAX_SLABS 0 0 (1000000 + d) = 112500 + (1000000 + d - 1000000) * (3 / 10)"
      by (rule tax_region4) (use d le c in simp_all)
    then show ?thesis unfolding c tax_at_1000000 by simp
  qed
qed

text \<open>
  Claim C6. At a ceiling of the table other than the last, one more unit of income adds
  exactly one unit times the next slab's rate to the tax before rounding; more generally
  an income \<open>d\<close> above the ceiling and within the next slab adds \<open>d\<close> times that rate, the
  tax on the income up to the ceiling being unchanged.
\<close>

theorem marginal_unit_at_ceiling:
  "\<forall>i. Suc i < length TAX_SLABS \<longrightarrow>
      slab_loop TAX_SLABS 0 0 (fst (TAX_SLABS ! i) + 1) - slab_loop TAX_SLABS 0 0 (fst (TAX_SLABS ! i)) =
        1 * snd (TAX_SLABS ! Suc i) \<and>
      (\<forall>d. 0 \<le> d \<and> d * 100 \<in> \<int> \<and> fst (TAX_SLABS ! i) + d \<le> fst (TAX_SLABS ! Suc i) \<longrightarrow>
         slab_loop TAX_SLABS 0 0 (fst (TAX_SLABS ! i) + d) =
           slab_loop TAX_SLABS 0 0 (fst (TAX_SLABS ! i)) + d * snd (TAX_SLABS ! Suc i))"
proof (intro allI impI conjI)
  fix i assume i: "Suc i < length TAX_SLABS"
  from i have "i = 0 \<or> i = 1 \<or> i = 2" by (auto simp: TAX_SLABS_def)
  then have "fst (TAX_SLABS ! i) + 1 \<le> fst (TAX_SLABS ! Suc i)"
    by (auto simp: TAX_SLABS_def numeral_2_eq_2)
  with i have "slab_loop TAX_SLABS 0 0 (fst (TAX_SLABS ! i) + 1) =
           slab_loop TAX_SLABS 0 0 (fst (TAX_SLABS ! i)) + 1 * snd (TAX_SLABS ! Suc i)"
    by (intro marginal_after_ceiling) simp_all
  then show "slab_loop TAX_SLABS 0 0 (fst (TAX_SLABS ! i) + 1) - slab_loop TAX_SLABS 0 0 (fst (TAX_SLABS ! i)) =
        1 * snd (TAX_SLABS ! Suc i)" by simp
next
  fix i d assume "Suc i < length TAX_SLABS"
    and "0 \<le> d \<and> d * 100 \<in> \<int> \<and> fst (TAX_SLABS ! i) + d \<le> fst (TAX_SLABS ! Suc i)"
  then show "slab_loop TAX_SLABS 0 0 (fst (TAX_SLABS ! i) + d) =
           slab_loop TAX_SLABS 0 0 (fst (TAX_SLABS ! i)) + d * snd (TAX_SLABS ! Suc i)"
    by (intro marginal_after_ceiling) simp_all
qed

theorem marginal_unit_at_ceiling_witness:
  "Suc 1 < length TAX_SLABS \<and> fst (TAX_SLABS ! 1) = 500000 \<and> snd (TAX_SLABS ! Suc 1) = 2 / 10 \<and>
   slab_loop TAX_SLABS 0 0 (500000 + 1) - slab_loop TAX_SLABS 0 0 500000 = 1 * (2 / 10)"
proof -
  have h: "Suc 1 < length TAX_SLABS" by (simp add: TAX_SLABS_def)
  have c: "fst (TAX_SLABS ! 1) = 500000" "snd (TAX_SLABS ! Suc 1) = 2 / 10"
    by (simp_all add: TAX_SLABS_def)
  from marginal_unit_at_ceiling h
  have "slab_loop TAX_SLABS 0 0 (fst (TAX_SLABS ! 1) + 1) - slab_loop TAX_SLABS 0 0 (fst (TAX_SLABS ! 1)) =
        1 * snd (TAX_SLABS ! Suc 1)" by blast
  then show ?thesis using h unfolding c by simp
qed

lemma slab_amount_as_specified:
  "min (dec_sub limit prev_limit) (dec_sub taxable_income prev_limit) =
     dec_sub (min limit taxable_income) prev_limit"
proof (cases "limit \<le> taxable_income")
  case True
  then have "ctx_fix (limit - prev_limit) \<le> ctx_fix (taxable_income - prev_limit)"
    by (intro ctx_fix_mono) simp
  with True show ?thesis by (simp add: dec_sub_def min_def)
next
  case False
  then have "ctx_fix (taxable_income - prev_limit) \<le> ctx_fix (limit - prev_limit)"
    by (intro ctx_fix_mono) simp
  with False show ?thesis by (simp add: dec_sub_def min_def)
qed

lemma reference_region0:
  assumes "income \<le> 0"
  shows "reference_slabs TAX_SLABS 0 0 income = 0"
  using assms by (simp add: TAX_SLABS_def Let_def min_def)

lemma reference_region1:
  assumes "0 < income" and "income \<le> 250000"
  shows "reference_slabs TAX_SLABS 0 0 income = 0"
  using assms by (simp add: TAX_SLABS_def Let_def min_def)

lemma reference_region2:
  assumes "250000 < income" and "income \<le> 500000"
  shows "reference_slabs TAX_SLABS 0 0 income = (income - 250000) * (5 / 100)"
  using assms by (simp add: TAX_SLABS_def Let_def min_def)

lemma reference_region3:
  assumes "500000 < income" and "income \<le> 1000000"
  shows "reference_slabs TAX_SLABS 0 0 income = 12500 + (income - 500000) * (2 / 10)"
  using assms by (simp add: TAX_SLABS_def Let_def min_def)

lemma reference_region4:
  assumes "1000000 < income" and "income \<le> 999999999"
  shows "reference_slabs TAX_SLABS 0 0 income = 112500 + (income - 1000000) * (3 / 10)"
  using assms by (simp add: TAX_SLABS_def Let_def min_def)

lemma reference_region5:
  assumes "999999999 < income"
  shows "reference_slabs TAX_SLABS 0 0 income = 2998124997 / 10"
  using assms by (simp add: TAX_SLABS_def Let_def min_def)

lemma slab_loop_reference:
  assumes "taxable_income * 100 \<in> \<int>"
  shows "slab_loop TAX_SLABS 0 0 taxable_income = reference_slabs TAX_SLABS 0 0 taxable_income"
proof -
  consider "taxable_income \<le> 0" | "0 < taxable_income" "taxable_income \<le> 250000"
    | "250000 < taxable_income" "taxable_income \<le> 500000"
    | "500000 < taxable_income" "taxable_income \<le> 1000000"
    | "1000000 < taxable_income" "taxable_income \<le> 999999999"
    | "999999999 < taxable_income" by linarith
  then show ?thesis
  proof cases
    case 1
    have "slab_loop TAX_SLABS 0 0 taxable_income = 0"
      using 1 by (rule slab_loop_nonpositive) (simp_all add: TAX_SLABS_def)
    then show ?thesis using reference_region0 [OF 1] by simp
  next
    case 2
    then show ?thesis using tax_region1 [OF 2] reference_region1 [OF 2] by simp
  next
    case 3
    then show ?thesis using tax_region2 [OF assms 3] reference_region2 [OF 3] by simp
  next
    case 4
    then show ?thesis using tax_region3 [OF assms 4] reference_region3 [OF 4] by simp
  next
    case 5
    then show ?thesis using tax_region4 [OF assms 5] reference_region4 [OF 5] by simp
  next
    case 6
    then show ?thesis using tax_region5 [OF 6] reference_region5 [OF 6] by simp
  qed
qed

lemma reference_slabs_bounds:
  "0 \<le> reference_slabs TAX_SLABS 0 0 income \<and> reference_slabs TAX_SLABS 0 0 income \<le> 2998124997 / 10"
proof -
  consider "income \<le> 0" | "0 < income" "income \<le> 250000"
    | "250000 < income" "income \<le> 500000"
    | "500000 < income" "income \<le> 1000000"
    | "1000000 < income" "income \<le> 999999999"
    | "999999999 < income" by linarith
  then show ?thesis
  proof cases
    case 1 then show ?thesis unfolding reference_region0 [OF 1] by simp
  next
    case 2 then show ?thesis unfolding reference_region1 [OF 2] by simp
  next
    case 3 then show ?thesis unfolding reference_region2 [OF 3] by simp
  next
    case 4 then show ?thesis unfolding reference_region3 [OF 4] by simp
  next
    case 5 then show ?thesis unfolding reference_region4 [OF 5] by simp
  next
    case 6 then show ?thesis unfolding reference_region5 [OF 6] by simp
  qed
qed

lemma to_decimal_round_money_reference:
  assumes "\<bar>x\<bar> < 10 ^ 25"
  shows "to_decimal x = Inr (round_money_reference x)"
proof -
  have e: "\<bar>of_int (round_half_up (x * 100)) - x * 100\<bar> \<le> 1 / 2" by (rule round_half_up_error)
  have b: "\<bar>x * 100\<bar> < 1000000000000000000000000000" using assms by (simp add: abs_mult)
  from e b have "\<bar>rat_of_int (round_half_up (x * 100))\<bar> < 10000000000000000000000000000"
    by linarith
  then have "\<bar>rat_of_int (round_half_up (x * 100))\<bar> < rat_of_int (10 ^ 28)" by simp
  then have "\<bar>round_half_up (x * 100)\<bar> < 10 ^ 28"
    by (simp only: of_int_abs [symmetric] of_int_less_iff)
  then show ?thesis
    unfolding to_decimal_def quantize_def Let_def round_money_reference_def by simp
qed

text \<open>
  Claim C3. On every taxable income with two fractional digits (the fixed-point values
  the calculator is given), negative ones included, \<^verbatim>\<open>income_tax_annually\<close> returns what
  the reference computation of the specification gives: the slab amounts
  \<open>min slab_ceiling income - prev_limit\<close> taxed at their rates in exact arithmetic, the
  early stop, and one rounding of the total at the end.
\<close>

theorem income_tax_annually_reference:
  assumes "taxable_income * 100 \<in> \<int>"
  shows "income_tax_annually taxable_income = Inr (annual_tax_reference taxable_income)"
proof -
  have "\<bar>reference_slabs TAX_SLABS 0 0 taxable_income\<bar> < 10 ^ 25"
    using reference_slabs_bounds [of taxable_income] by simp
  then have "to_decimal (reference_slabs TAX_SLABS 0 0 taxable_income) =
               Inr (round_money_reference (reference_slabs TAX_SLABS 0 0 taxable_income))"
    by (rule to_decimal_round_money_reference)
  then show ?thesis
    unfolding income_tax_annually_def annual_tax_reference_def slab_loop_reference [OF assms] .
qed

theorem income_tax_annually_reference_witness:
  "(382000 :: rat) * 100 \<in> \<int> \<and> income_tax_annually 382000 = Inr (annual_tax_reference 382000) \<and>
   annual_tax_reference 382000 = 6600"
proof -
  have h: "(382000 :: rat) * 100 \<in> \<int>" by simp
  have "reference_slabs TAX_SLABS 0 0 382000 = (382000 - 250000) * (5 / 100)"
    by (rule reference_region2) simp_all
  then have "annual_tax_reference 382000 = round_money_reference (rat_of_int 6600)"
    unfolding annual_tax_reference_def by simp
  also have "\<dots> = 6600"
    unfolding round_money_reference_def using round_half_up_of_int [of 660000] by simp
  finally have r: "annual_tax_reference 382000 = 6600" .
  from h income_tax_annually_reference [OF h] r show ?thesis by blast
qed

section \<open>The pay computation\<close>

lemma bind_err_Inr: "bind_err (Inr v) f = f v"
  by (simp add: bind_err_def)

lemma bind_err_Inl: "bind_err (Inl e) f = Inl e"
  by (simp add: bind_err_def)

lemma bind_err_eq_Inr: "bind_err m f = Inr y \<longleftrightarrow> (\<exists>v. m = Inr v \<and> f v = Inr y)"
  by (cases m) (simp_all add: bind_err_def)

lemma dec_div_nonzero: "y \<noteq> 0 \<Longrightarrow> dec_div x y = Inr (ctx_fix (x / y))"
  by (simp add: dec_div_def)

lemma abs_int_bound:
  assumes "\<bar>rat_of_int m\<bar> < 10 ^ n"
  shows "\<bar>m\<bar> < 10 ^ n"
proof -
  have "rat_of_int \<bar>m\<bar> < rat_of_int (10 ^ n)" using assms by simp
  then show ?thesis by (simp only: of_int_less_iff)
qed

lemma ctx_fix_cents:
  assumes "x * 100 \<in> \<int>" and "\<bar>x\<bar> < 10 ^ 26"
  shows "ctx_fix x = x"
proof -
  from assms(1) obtain m where m: "x * 100 = of_int m" by (auto elim: Ints_cases)
  have "\<bar>x * 100\<bar> < 10 ^ 28" using assms(2) by (simp add: abs_mult)
  then have "\<bar>m\<bar> < 10 ^ 28" unfolding m by (rule abs_int_bound)
  moreover have "x * 10 ^ 2 = of_int m" using m by simp
  ultimately show ?thesis by (rule ctx_fix_scaled [rotated])
qed

lemma ctx_fix_int:
  assumes "x \<in> \<int>" and "\<bar>x\<bar> < 10 ^ 28"
  shows "ctx_fix x = x"
proof -
  from assms(1) obtain m where m: "x = of_int m" by (auto elim: Ints_cases)
  have "\<bar>m\<bar> < 10 ^ 28" using assms(2) unfolding m by (rule abs_int_bound)
  moreover have "x * 10 ^ 0 = of_int m" using m by simp
  ultimately show ?thesis by (rule ctx_fix_scaled [rotated])
qed

lemma quantize_cents:
  assumes "x * 100 \<in> \<int>" and "\<bar>x\<bar> < 10 ^ 26"
  shows "quantize x r = Inr x"
proof -
  from assms(1) obtain m where m: "x * 100 = of_int m" by (auto elim: Ints_cases)
  have "\<bar>x * 100\<bar> < 10 ^ 28" using assms(2) by (simp add: abs_mult)
  then have "\<bar>m\<bar> < 10 ^ 28" unfolding m by (rule abs_int_bound)
  with m show ?thesis by (rule quantize_exact)
qed

lemma quantize_even_unique:
  assumes "\<bar>x * 100 - of_int z\<bar> < 1 / 2" and "\<bar>z\<bar> < 10 ^ 28"
  shows "quantize x None = Inr (of_int z / 100)"
proof -
  have "round_half_even (x * 100) = z" using assms(1) by (rule round_half_even_unique)
  then show ?thesis using assms(2) by (simp add: quantize_def Let_def)
qed

lemma quantize_even_tie:
  assumes "x * 100 = of_int z + 1 / 2" and "\<bar>z\<bar> + 1 < 10 ^ 28"
  shows "quantize x None = Inr (of_int (if even z then z else z + 1) / 100)"
proof -
  have r: "round_half_even (x * 100) = (if even z then z else z + 1)"
    using assms(1) by (rule round_half_even_tie)
  have b: "\<bar>z\<bar> + 1 < (10000000000000000000000000000::int)" using assms(2) by simp
  have "\<bar>z\<bar> < (10000000000000000000000000000::int)"
    and "\<bar>z + 1\<bar> < (10000000000000000000000000000::int)" using b by linarith+
  then have "\<bar>if even z then z else z + 1\<bar> < 10 ^ 28" by simp
  then show ?thesis unfolding quantize_def Let_def r by simp
qed

lemma quantize_Inr:
  assumes "quantize x r = Inr y"
  shows "y * 100 \<in> \<int>" and "\<bar>y\<bar> < 10 ^ 26"
proof -
  define c where "c = (case r of
                 Some ROUND_HALF_UP \<Rightarrow> round_half_up (x * 100)
               | Some ROUND_HALF_EVEN \<Rightarrow> round_half_even (x * 100)
               | None \<Rightarrow> round_half_even (x * 100))"
  have "quantize x r = (if 10 ^ 28 \<le> \<bar>c\<bar> then Inl InvalidOperation else Inr (of_int c / 100))"
    unfolding quantize_def c_def Let_def ..
  with assms have c: "\<bar>c\<bar> < 10 ^ 28" and y: "y = of_int c / 100"
    by (simp_all split: if_splits)
  show "y * 100 \<in> \<int>" unfolding y by simp
  have "rat_of_int \<bar>c\<bar> < rat_of_int (10 ^ 28)" using c by (simp only: of_int_less_iff)
  then show "\<bar>y\<bar> < 10 ^ 26" unfolding y by simp
qed

lemma round_with_large:
  assumes "10 ^ 28 \<le> \<bar>y\<bar>"
  shows "10 ^ 28 \<le> \<bar>round_half_up y\<bar>" and "10 ^ 28 \<le> \<bar>round_half_even y\<bar>"
proof -
  have p: "10 ^ 28 \<le> round_half_up z \<and> 10 ^ 28 \<le> round_half_even z" if "10 ^ 28 \<le> z" for z :: rat
  proof -
    have "rat_of_int (10 ^ 28) \<le> z" using that by simp
    then have "round_half_up (rat_of_int (10 ^ 28)) \<le> round_half_up z"
      and "round_half_even (rat_of_int (10 ^ 28)) \<le> round_half_even z"
      by (rule round_half_up_mono, rule round_half_even_mono)
    then show ?thesis by (simp only: round_half_up_of_int round_half_even_of_int)
  qed
  have "10 ^ 28 \<le> \<bar>round_half_up y\<bar> \<and> 10 ^ 28 \<le> \<bar>round_half_even y\<bar>"
  proof (cases "0 \<le> y")
    case True
    with assms have "10 ^ 28 \<le> y" by simp
    from p [OF this] show ?thesis by simp
  next
    case False
    with assms have "10 ^ 28 \<le> - y" by simp
    from p [OF this] show ?thesis by (simp add: round_half_up_minus round_half_even_minus)
  qed
  then show "10 ^ 28 \<le> \<bar>round_half_up y\<bar>" and "10 ^ 28 \<le> \<bar>round_half_even y\<bar>" by simp_all
qed

lemma quantize_large:
  assumes "10 ^ 26 \<le> \<bar>x\<bar>"
  shows "quantize x r = Inl InvalidOperation"
proof -
  have "10 ^ 28 \<le> \<bar>x * 100\<bar>" using assms by (simp add: abs_mult)
  from round_with_large [OF this] show ?thesis
    unfolding quantize_def Let_def by (simp split: option.split rounding.split)
qed

lemma ctx_fix_pow26: "ctx_fix (10 ^ 26) = 10 ^ 26"
  by (rule ctx_fix_int) simp_all

lemma ctx_fix_large:
  assumes "10 ^ 26 \<le> \<bar>x\<bar>"
  shows "10 ^ 26 \<le> \<bar>ctx_fix x\<bar>"
proof (cases "0 \<le> x")
  case True
  with assms have "10 ^ 26 \<le> x" by simp
  then have "ctx_fix (10 ^ 26) \<le> ctx_fix x" by (rule ctx_fix_mono)
  then show ?thesis unfolding ctx_fix_pow26 by simp
next
  case False
  with assms have "10 ^ 26 \<le> - x" by simp
  then have "ctx_fix (10 ^ 26) \<le> ctx_fix (- x)" by (rule ctx_fix_mono)
  then show ?thesis unfolding ctx_fix_pow26 ctx_fix_minus by simp
qed

lemma quantize_ctx_fix_cents:
  assumes "s * 100 \<in> \<int>" and "quantize (ctx_fix s) r = Inr z"
  shows "z = s" and "\<bar>s\<bar> < 10 ^ 26"
proof -
  have b: "\<bar>s\<bar> < 10 ^ 26"
  proof (rule ccontr)
    assume "\<not> \<bar>s\<bar> < 10 ^ 26"
    then have "10 ^ 26 \<le> \<bar>s\<bar>" by simp
    then have "10 ^ 26 \<le> \<bar>ctx_fix s\<bar>" by (rule ctx_fix_large)
    then have "quantize (ctx_fix s) r = Inl InvalidOperation" by (rule quantize_large)
    with assms(2) show False by simp
  qed
  then show "\<bar>s\<bar> < 10 ^ 26" .
  have "ctx_fix s = s" using assms(1) b by (rule ctx_fix_cents)
  moreover have "quantize s r = Inr s" using assms(1) b by (rule quantize_cents)
  ultimately show "z = s" using assms(2) by simp
qed

lemma ctx_fix_sub_exact:
  assumes x0: "0 < x" and x28: "x < 10 ^ 28" and n0: "0 < n" and le: "of_int n \<le> ctx_fix x"
  shows "ctx_fix (ctx_fix x - of_int n) = ctx_fix x - of_int n"
proof -
  define a where "a = adjusted x"
  define R where "R = round_half_even (x / 10 powi (a - 27))"
  have xn: "x \<noteq> 0" and ax: "\<bar>x\<bar> = x" using x0 by simp_all
  note b = adjusted_bounds [OF xn, unfolded ax, folded a_def]
  have a27: "a \<le> 27"
  proof (rule ccontr)
    assume "\<not> a \<le> 27"
    then have "28 \<le> a" by simp
    then have "(10::rat) powi 28 \<le> 10 powi a" by (intro power_int_increasing) simp_all
    with b(1) x28 show False by simp
  qed
  define k where "k = nat (27 - a)"
  have ak: "a - 27 = - int k" using a27 unfolding k_def by simp
  have q: "(10::rat) powi (a - 27) = 1 / 10 ^ k"
    unfolding ak by (simp add: power_int_minus field_simps)
  have fx: "ctx_fix x = of_int R * 10 powi (a - 27)"
    using xn by (simp add: ctx_fix_def Let_def a_def R_def)
  have "ctx_fix x \<le> 10 powi (a + 1)" unfolding a_def using x0 by (rule ctx_fix_pos_bounds)
  then have "rat_of_int R * 10 powi (a - 27) \<le> 10 ^ 28 * 10 powi (a - 27)"
    unfolding fx pow10_split1 [of a] .
  then have "rat_of_int R \<le> rat_of_int (10 ^ 28)" unfolding q by (simp add: field_simps)
  then have R28: "R \<le> 10 ^ 28" by (simp only: of_int_le_iff)
  have d: "ctx_fix x - of_int n = of_int (R - n * 10 ^ k) * 10 powi (a - 27)"
    unfolding fx q by (simp add: field_simps)
  have "0 \<le> ctx_fix x - of_int n" using le by simp
  then have nn: "0 \<le> rat_of_int (R - n * 10 ^ k) * (1 / 10 ^ k)" unfolding d q .
  have pk: "(0::rat) < 1 / 10 ^ k" by simp
  have "\<not> rat_of_int (R - n * 10 ^ k) < 0"
  proof
    assume "rat_of_int (R - n * 10 ^ k) < 0"
    then have "rat_of_int (R - n * 10 ^ k) * (1 / 10 ^ k) < 0" using pk by (rule mult_neg_pos)
    with nn show False by linarith
  qed
  then have "rat_of_int 0 \<le> rat_of_int (R - n * 10 ^ k)" by simp
  then have lo: "0 \<le> R - n * 10 ^ k" by (simp only: of_int_le_iff)
  have "0 < n * 10 ^ k" using n0 by simp
  with R28 lo have "\<bar>R - n * 10 ^ k\<bar> < 10 ^ 28" by simp
  with d show ?thesis by (rule ctx_fix_exact)
qed

lemma compute_amounts_Inr:
  assumes "compute_amounts row = Inr a"
  shows "to_decimal (e_basic row) = Inr (basic a)"
    and "to_decimal (e_other_allowances row) = Inr (other_allow a)"
    and "\<exists>p e. to_decimal (e_hra_percent row) = Inr p \<and> dec_div (dec_mul (basic a) p) 100 = Inr e \<and>
           quantize e None = Inr (hra a)"
    and "\<exists>p e. to_decimal (e_da_percent row) = Inr p \<and> dec_div (dec_mul (basic a) p) 100 = Inr e \<and>
           quantize e None = Inr (da a)"
    and "quantize (dec_add (dec_add (dec_add (basic a) (hra a)) (da a)) (other_allow a)) None =
           Inr (gross a)"
    and "\<exists>e. dec_div (dec_mul (basic a) PF_PERCENT) 100 = Inr e \<and> quantize e None = Inr (pf a)"
    and "annual_gross a = dec_mul (gross a) 12"
    and "taxable_ann a = max 0 (dec_sub (annual_gross a) 50000)"
    and "income_tax_annually (taxable_ann a) = Inr (annual_tax a)"
    and "\<exists>e. dec_div (annual_tax a) 12 = Inr e \<and> quantize e None = Inr (monthly_tax a)"
    and "quantize (dec_add (pf a) (monthly_tax a)) None = Inr (total_deductions a)"
    and "quantize (dec_sub (gross a) (total_deductions a)) None = Inr (net a)"
  using assms unfolding compute_amounts_def Let_def bind_err_eq_Inr
  by auto

lemma income_tax_annually_382000: "income_tax_annually 382000 = Inr 6600"
proof -
  have "slab_loop TAX_SLABS 0 0 382000 = (382000 - 250000) * (5 / 100)"
    by (rule tax_region2) simp_all
  then have "slab_loop TAX_SLABS 0 0 382000 = 6600" by simp
  then show ?thesis unfolding income_tax_annually_def by (simp add: to_decimal_cents)
qed

lemmas eval_rules =
  bind_err_Inr bind_err_Inl dec_div_nonzero dec_add_def dec_sub_def dec_mul_def
  to_decimal_cents quantize_cents ctx_fix_small PF_PERCENT_def Let_def

lemma scenario_amounts:
  "compute_amounts \<lparr>e_id = i, e_emp_code = c, e_name = n, e_designation = d, e_basic = 30000,
      e_hra_percent = 20, e_da_percent = 0, e_other_allowances = 0\<rparr> =
   Inr \<lparr>basic = 30000, hra = 6000, da = 0, other_allow = 0, gross = 36000, pf = 3600,
        annual_gross = 432000, taxable_ann = 382000, annual_tax = 6600, monthly_tax = 550,
        total_deductions = 4150, net = 31850\<rparr>"
  unfolding compute_amounts_def
  by (simp add: eval_rules income_tax_annually_382000)

lemma scenario_pay:
  "compute_pay \<lparr>employees = [\<lparr>e_id = i, e_emp_code = c, e_name = n, e_designation = d,
        e_basic = 30000, e_hra_percent = 20, e_da_percent = 0, e_other_allowances = 0\<rparr>],
      payslips = ps\<rparr> c (Some m) now_month now_iso =
   (Inr \<lparr>p_emp_code = c, p_name = n, p_designation = d, p_month = m,
          p_breakdown = \<lparr>b_basic = 30000, b_hra = 6000, b_da = 0, b_other_allowances = 0,
            b_gross_salary = 36000, b_pf = 3600, b_tax = 550, b_total_deductions = 4150,
            b_net_salary = 31850\<rparr>\<rparr>,
    \<lparr>employees = [\<lparr>e_id = i, e_emp_code = c, e_name = n, e_designation = d,
        e_basic = 30000, e_hra_percent = 20, e_da_percent = 0, e_other_allowances = 0\<rparr>],
     payslips = ps @ [\<lparr>s_emp_id = i, s_month = m, s_generated_on = now_iso,
        s_gross_salary = 36000, s_total_deductions = 4150, s_net_salary = 31850,
        s_breakdown = \<lparr>b_basic = 30000, b_hra = 6000, b_da = 0, b_other_allowances = 0,
            b_gross_salary = 36000, b_pf = 3600, b_tax = 550, b_total_deductions = 4150,
            b_net_salary = 31850\<rparr>\<rparr>]\<rparr>)"
  unfolding compute_pay_def get_employee_by_code_def
  by (simp add: scenario_amounts breakdown_of_def)


text \<open>
  Claim C2. The scenario of the specification: basic \<open>30000\<close>, HRA \<open>20\<close> percent, DA
  \<open>0\<close> percent and no other allowances. The local variables of \<^verbatim>\<open>compute_pay\<close> take
  the values below, and the call returns them as the breakdown and appends them to
  \<^verbatim>\<open>payslips\<close>.
\<close>

theorem compute_pay_scenario:
  "compute_amounts \<lparr>e_id = i, e_emp_code = c, e_name = n, e_designation = d, e_basic = 30000,
      e_hra_percent = 20, e_da_percent = 0, e_other_allowances = 0\<rparr> =
   Inr \<lparr>basic = 30000, hra = 6000, da = 0, other_allow = 0, gross = 36000, pf = 3600,
        annual_gross = 432000, taxable_ann = 382000, annual_tax = 6600, monthly_tax = 550,
        total_deductions = 4150, net = 31850\<rparr> \<and>
   fst (compute_pay \<lparr>employees = [\<lparr>e_id = i, e_emp_code = c, e_name = n, e_designation = d,
        e_basic = 30000, e_hra_percent = 20, e_da_percent = 0, e_other_allowances = 0\<rparr>],
      payslips = ps\<rparr> c (Some m) now_month now_iso) =
   Inr \<lparr>p_emp_code = c, p_name = n, p_designation = d, p_month = m,
          p_breakdown = \<lparr>b_basic = 30000, b_hra = 6000, b_da = 0, b_other_allowances = 0,
            b_gross_salary = 36000, b_pf = 3600, b_tax = 550, b_total_deductions = 4150,
            b_net_salary = 31850\<rparr>\<rparr>"
  by (simp add: scenario_amounts scenario_pay)

lemma quantize_hra_tie: "quantize (4001 / 40) None = Inr (5001 / 50)"
proof -
  have "(4001 / 40 :: rat) * 100 = of_int 10002 + 1 / 2" by simp
  then have "quantize (4001 / 40) None = Inr (of_int (if even (10002::int) then 10002 else 10002 + 1) / 100)"
    by (rule quantize_even_tie) simp
  then show ?thesis by simp
qed

lemma to_decimal_hra_tie: "to_decimal (4001 / 40) = Inr (10003 / 100)"
proof -
  have "(4001 / 40 :: rat) * 100 = of_int 10002 + 1 / 2" by simp
  then have "round_half_up (4001 / 40 * 100) = 10002 + 1" by (rule round_half_up_tie) simp
  then show ?thesis unfolding to_decimal_def quantize_def Let_def by simp
qed

text \<open>
  Claim C1, at the profile basic \<open>1000.25\<close>, HRA \<open>10\<close> percent: the exact HRA is
  \<open>100.025\<close>, a tie. \<^verbatim>\<open>compute_pay\<close> calls \<^verbatim>\<open>quantize\<close> without a rounding mode, so the
  context's \<^verbatim>\<open>ROUND_HALF_EVEN\<close> gives \<open>100.02\<close>, where the rounding utility
  \<^verbatim>\<open>to_decimal\<close> gives \<open>100.03\<close>; gross and net follow.
\<close>

theorem compute_amounts_hra_tie_half_even:
  "compute_amounts \<lparr>e_id = i, e_emp_code = c, e_name = n, e_designation = d, e_basic = 4001 / 4,
      e_hra_percent = 10, e_da_percent = 0, e_other_allowances = 0\<rparr> =
   Inr \<lparr>basic = 4001 / 4, hra = 10002 / 100, da = 0, other_allow = 0, gross = 110027 / 100,
        pf = 12003 / 100, annual_gross = 1320324 / 100, taxable_ann = 0, annual_tax = 0,
        monthly_tax = 0, total_deductions = 12003 / 100, net = 98024 / 100\<rparr> \<and>
   to_decimal (4001 / 4 * 10 / 100) = Inr (10003 / 100)"
  unfolding compute_amounts_def
  by (simp add: eval_rules quantize_hra_tie to_decimal_hra_tie income_tax_annually_nonpositive)

lemma compute_pay_Inr:
  assumes "compute_pay conn emp_code month now_month now_iso = (Inr p, conn')"
  shows "\<exists>row a. get_employee_by_code conn emp_code = Some row \<and> compute_amounts row = Inr a \<and>
           p_breakdown p = breakdown_of a"
  using assms unfolding compute_pay_def
  by (auto simp: Let_def split: option.splits sum.splits)

lemma gross_exact:
  assumes b: "b * 100 \<in> \<int>" and h: "h * 100 \<in> \<int>" and d: "d * 100 \<in> \<int>" and oc: "oa * 100 \<in> \<int>"
    and s1: "\<bar>b + h\<bar> < 10 ^ 26" and s2: "\<bar>b + h + d\<bar> < 10 ^ 26"
    and q: "quantize (dec_add (dec_add (dec_add b h) d) oa) None = Inr g"
  shows "g = b + h + d + oa"
proof -
  have c1: "(b + h) * 100 \<in> \<int>" using Ints_add [OF b h] by (simp add: algebra_simps)
  have c2: "(b + h + d) * 100 \<in> \<int>" using Ints_add [OF c1 d] by (simp add: algebra_simps)
  have c3: "(b + h + d + oa) * 100 \<in> \<int>" using Ints_add [OF c2 oc] by (simp add: algebra_simps)
  have e1: "dec_add b h = b + h" unfolding dec_add_def using c1 s1 by (rule ctx_fix_cents)
  have e2: "dec_add (b + h) d = b + h + d" unfolding dec_add_def using c2 s2 by (rule ctx_fix_cents)
  have "quantize (ctx_fix (b + h + d + oa)) None = Inr g"
    using q unfolding e1 e2 unfolding dec_add_def .
  with c3 show ?thesis by (rule quantize_ctx_fix_cents)
qed

lemma nonneg_sum_bounds:
  assumes "0 \<le> b" "0 \<le> h" "0 \<le> d" "0 \<le> oa"
    and bc: "b * 100 \<in> \<int>" and hc: "h * 100 \<in> \<int>"
    and q: "quantize (dec_add (dec_add (dec_add b h) d) oa) None = Inr g"
  shows "\<bar>b + h\<bar> < 10 ^ 26" and "\<bar>b + h + d\<bar> < 10 ^ 26"
proof -
  have up: "10 ^ 26 \<le> ctx_fix (x + y)" if "10 ^ 26 \<le> x" "0 \<le> y" for x y :: rat
  proof -
    have "10 ^ 26 \<le> x + y" using that by simp
    then have "ctx_fix (10 ^ 26) \<le> ctx_fix (x + y)" by (rule ctx_fix_mono)
    then show ?thesis unfolding ctx_fix_pow26 .
  qed
  have fin: False if "10 ^ 26 \<le> dec_add (dec_add (dec_add b h) d) oa"
  proof -
    from that have "10 ^ 26 \<le> \<bar>dec_add (dec_add (dec_add b h) d) oa\<bar>" by simp
    then have "quantize (dec_add (dec_add (dec_add b h) d) oa) None = Inl InvalidOperation"
      by (rule quantize_large)
    with q show False by simp
  qed
  have n2: "\<not> 10 ^ 26 \<le> dec_add (dec_add b h) d"
  proof
    assume "10 ^ 26 \<le> dec_add (dec_add b h) d"
    then have "10 ^ 26 \<le> dec_add (dec_add (dec_add b h) d) oa"
      unfolding dec_add_def [of _ oa] using assms(4) by (rule up)
    then show False by (rule fin)
  qed
  have n1: "\<not> 10 ^ 26 \<le> dec_add b h"
  proof
    assume "10 ^ 26 \<le> dec_add b h"
    then have "10 ^ 26 \<le> dec_add (dec_add b h) d"
      unfolding dec_add_def [of _ d] using assms(3) by (rule up)
    with n2 show False by simp
  qed
  have a1: "\<not> 10 ^ 26 \<le> b + h"
  proof
    assume "10 ^ 26 \<le> b + h"
    then have "ctx_fix (10 ^ 26) \<le> ctx_fix (b + h)" by (rule ctx_fix_mono)
    with n1 show False unfolding ctx_fix_pow26 dec_add_def by simp
  qed
  then show s1: "\<bar>b + h\<bar> < 10 ^ 26" using assms(1,2) by simp
  have a2: "\<not> 10 ^ 26 \<le> b + h + d"
  proof
    assume "10 ^ 26 \<le> b + h + d"
    then have "ctx_fix (10 ^ 26) \<le> ctx_fix (b + h + d)" by (rule ctx_fix_mono)
    moreover have "(b + h) * 100 \<in> \<int>" using Ints_add [OF bc hc] by (simp add: algebra_simps)
    then have "dec_add b h = b + h" unfolding dec_add_def using s1 by (rule ctx_fix_cents)
    ultimately show False using n2 unfolding ctx_fix_pow26 dec_add_def by simp
  qed
  then show "\<bar>b + h + d\<bar> < 10 ^ 26" using assms(1,2,3) by simp
qed

lemma ctx_fix_eval:
  assumes lo: "10 powi e \<le> \<bar>x\<bar>" and hi: "\<bar>x\<bar> < 10 powi (e + 1)"
    and r: "\<bar>x / 10 powi (e - 27) - of_int z\<bar> < 1 / 2"
  shows "ctx_fix x = of_int z * 10 powi (e - 27)"
proof -
  have a: "adjusted x = e" using lo hi by (rule adjusted_unique)
  have "(0::rat) < 10 powi e" by (rule zero_less_power_int) simp
  from this lo have "0 < \<bar>x\<bar>" by (rule less_le_trans)
  then have x0: "x \<noteq> 0" by simp
  have "round_half_even (x / 10 powi (e - 27)) = z" using r by (rule round_half_even_unique)
  then show ?thesis using x0 by (simp add: ctx_fix_def a Let_def)
qed

lemma ctx_fix_29_digits:
  assumes "10 ^ 26 \<le> \<bar>x\<bar>" and "\<bar>x\<bar> < 10 ^ 27" and "\<bar>x * 10 - of_int z\<bar> < 1 / 2"
  shows "ctx_fix x = of_int z / 10"
proof -
  have p: "(10::rat) powi (26 - 27) = 1 / 10" by (simp add: power_int_minus)
  have "ctx_fix x = of_int z * 10 powi (26 - 27)"
  proof (rule ctx_fix_eval)
    show "10 powi 26 \<le> \<bar>x\<bar>" using assms(1) by simp
    show "\<bar>x\<bar> < 10 powi (26 + 1)" using assms(2) by simp
    show "\<bar>x / 10 powi (26 - 27) - of_int z\<bar> < 1 / 2" unfolding p using assms(3) by simp
  qed
  then show ?thesis unfolding p by simp
qed

lemma sum_29_digits:
  "ctx_fix (12000012000000000000001000001 / 100) = 120000120000000000000010000"
proof -
  have "ctx_fix (12000012000000000000001000001 / 100) = of_int 1200001200000000000000100000 / 10"
    by (rule ctx_fix_29_digits) simp_all
  then show ?thesis by simp
qed

lemma quantize_pf: "quantize (3000003 / 2500) None = Inr 1200"
proof -
  have "quantize (3000003 / 2500) None = Inr (of_int 120000 / 100)"
    by (rule quantize_even_unique) simp_all
  then show ?thesis by simp
qed

lemma quantize_monthly: "quantize (999374999 / 40) None = Inr (1249218749 / 50)"
proof -
  have "(999374999 / 40 :: rat) * 100 = of_int 2498437497 + 1 / 2" by simp
  then have "quantize (999374999 / 40) None =
      Inr (of_int (if even (2498437497::int) then 2498437497 else 2498437497 + 1) / 100)"
    by (rule quantize_even_tie) simp
  then show ?thesis by simp
qed

lemma income_tax_annually_large:
  "income_tax_annually 360001440000000000000070000 = Inr (2998124997 / 10)"
proof -
  have "slab_loop TAX_SLABS 0 0 360001440000000000000070000 = 2998124997 / 10"
    by (rule tax_region5) simp
  then show ?thesis unfolding income_tax_annually_def by (simp only: to_decimal_top)
qed

lemma lossy_steps:
  "to_decimal (1000001 / 100) = Inr (1000001 / 100)"
  "to_decimal 600000000000000000000000 = Inr 600000000000000000000000"
  "to_decimal (- 90000000000000000000000000) = Inr (- 90000000000000000000000000)"
  "dec_div (dec_mul (1000001 / 100) 600000000000000000000000) 100 = Inr 60000060000000000000000000"
  "quantize 60000060000000000000000000 None = Inr 60000060000000000000000000"
  "dec_add (1000001 / 100) 60000060000000000000000000 = 6000006000000000000001000001 / 100"
  "dec_add (6000006000000000000001000001 / 100) 60000060000000000000000000 =
     120000120000000000000010000"
  "dec_add 120000120000000000000010000 (- 90000000000000000000000000) = 30000120000000000000010000"
  "quantize 30000120000000000000010000 None = Inr 30000120000000000000010000"
  "dec_div (dec_mul (1000001 / 100) 12) 100 = Inr (3000003 / 2500)"
  "dec_mul 30000120000000000000010000 12 = 360001440000000000000120000"
  "dec_sub 360001440000000000000120000 50000 = 360001440000000000000070000"
  "dec_div (2998124997 / 10) 12 = Inr (999374999 / 40)"
  "dec_add 1200 (1249218749 / 50) = 1249278749 / 50"
  "quantize (1249278749 / 50) None = Inr (1249278749 / 50)"
  "dec_sub 30000120000000000000010000 (1249278749 / 50) = 1500005999999999998751221251 / 50"
  "quantize (1500005999999999998751221251 / 50) None = Inr (1500005999999999998751221251 / 50)"
proof -
  show "to_decimal (1000001 / 100) = Inr (1000001 / 100)" by (rule to_decimal_cents) simp_all
  show "to_decimal 600000000000000000000000 = Inr 600000000000000000000000"
    by (rule to_decimal_cents) simp_all
  show "to_decimal (- 90000000000000000000000000) = Inr (- 90000000000000000000000000)"
    by (rule to_decimal_cents) simp_all
  have f1: "ctx_fix 6000006000000000000000000000 = 6000006000000000000000000000"
    by (rule ctx_fix_int) simp_all
  have f2: "ctx_fix 60000060000000000000000000 = 60000060000000000000000000"
    by (rule ctx_fix_int) simp_all
  show "dec_div (dec_mul (1000001 / 100) 600000000000000000000000) 100 =
      Inr 60000060000000000000000000"
    by (simp add: dec_div_nonzero dec_mul_def f1 f2)
  show "quantize 60000060000000000000000000 None = Inr 60000060000000000000000000"
    by (rule quantize_cents) simp_all
  have f3: "ctx_fix (6000006000000000000001000001 / 100) = 6000006000000000000001000001 / 100"
    by (rule ctx_fix_cents) simp_all
  show "dec_add (1000001 / 100) 60000060000000000000000000 =
      6000006000000000000001000001 / 100" by (simp add: dec_add_def f1 f2 f3)
  show "dec_add (6000006000000000000001000001 / 100) 60000060000000000000000000 =
     120000120000000000000010000" by (simp add: dec_add_def sum_29_digits)
  have f4: "ctx_fix 30000120000000000000010000 = 30000120000000000000010000"
    by (rule ctx_fix_int) simp_all
  show "dec_add 120000120000000000000010000 (- 90000000000000000000000000) =
      30000120000000000000010000" by (simp add: dec_add_def f1 f2 f3 f4)
  show "quantize 30000120000000000000010000 None = Inr 30000120000000000000010000"
    by (rule quantize_cents) simp_all
  have f5: "ctx_fix (3000003 / 25) = 3000003 / 25" by (rule ctx_fix_small) simp_all
  have f6: "ctx_fix (3000003 / 2500) = 3000003 / 2500" by (rule ctx_fix_small) simp_all
  show "dec_div (dec_mul (1000001 / 100) 12) 100 = Inr (3000003 / 2500)"
    by (simp add: dec_div_nonzero dec_mul_def f1 f2 f3 f4 f5 f6)
  have f7: "ctx_fix 360001440000000000000120000 = 360001440000000000000120000"
    by (rule ctx_fix_int) simp_all
  show "dec_mul 30000120000000000000010000 12 = 360001440000000000000120000"
    by (simp add: dec_mul_def f1 f2 f3 f4 f5 f6 f7)
  have f8: "ctx_fix 360001440000000000000070000 = 360001440000000000000070000"
    by (rule ctx_fix_int) simp_all
  show "dec_sub 360001440000000000000120000 50000 = 360001440000000000000070000"
    by (simp add: dec_sub_def f1 f2 f3 f4 f5 f6 f7 f8)
  have f9: "ctx_fix (999374999 / 40) = 999374999 / 40" by (rule ctx_fix_small) simp_all
  show "dec_div (2998124997 / 10) 12 = Inr (999374999 / 40)"
    by (simp add: dec_div_nonzero f1 f2 f3 f4 f5 f6 f7 f8 f9)
  have f10: "ctx_fix (1249278749 / 50) = 1249278749 / 50" by (rule ctx_fix_small) simp_all
  show "dec_add 1200 (1249218749 / 50) = 1249278749 / 50" by (simp add: dec_add_def f1 f2 f3 f4 f5 f6 f7 f8 f9 f10)
  show "quantize (1249278749 / 50) None = Inr (1249278749 / 50)"
    by (rule quantize_cents) simp_all
  have f11: "ctx_fix (1500005999999999998751221251 / 50) = 1500005999999999998751221251 / 50"
    by (rule ctx_fix_cents) simp_all
  show "dec_sub 30000120000000000000010000 (1249278749 / 50) =
      1500005999999999998751221251 / 50" by (simp add: dec_sub_def f1 f2 f3 f4 f5 f6 f7 f8 f9 f10 f11)
  show "quantize (1500005999999999998751221251 / 50) None =
      Inr (1500005999999999998751221251 / 50)" by (rule quantize_cents) simp_all
qed

lemma lossy_amounts:
  "compute_amounts \<lparr>e_id = i, e_emp_code = c, e_name = n, e_designation = d,
      e_basic = 1000001 / 100, e_hra_percent = 600000000000000000000000,
      e_da_percent = 600000000000000000000000,
      e_other_allowances = - 90000000000000000000000000\<rparr> =
   Inr \<lparr>basic = 1000001 / 100, hra = 60000060000000000000000000,
        da = 60000060000000000000000000, other_allow = - 90000000000000000000000000,
        gross = 30000120000000000000010000, pf = 1200,
        annual_gross = 360001440000000000000120000,
        taxable_ann = 360001440000000000000070000, annual_tax = 2998124997 / 10,
        monthly_tax = 1249218749 / 50, total_deductions = 1249278749 / 50,
        net = 1500005999999999998751221251 / 50\<rparr>"
  unfolding compute_amounts_def
  by (simp add: lossy_steps bind_err_Inr Let_def PF_PERCENT_def quantize_pf quantize_monthly
      income_tax_annually_large)


lemma amounts_cents:
  assumes "compute_amounts row = Inr a"
  shows "basic a * 100 \<in> \<int>" and "hra a * 100 \<in> \<int>" and "da a * 100 \<in> \<int>"
    and "other_allow a * 100 \<in> \<int>" and "gross a * 100 \<in> \<int>" and "pf a * 100 \<in> \<int>"
    and "monthly_tax a * 100 \<in> \<int>" and "total_deductions a * 100 \<in> \<int>"
    and "net a * 100 \<in> \<int>" and "\<bar>gross a\<bar> < 10 ^ 26"
proof -
  note h = compute_amounts_Inr [OF assms]
  show "basic a * 100 \<in> \<int>" using h(1) unfolding to_decimal_def by (rule quantize_Inr)
  show "other_allow a * 100 \<in> \<int>" using h(2) unfolding to_decimal_def by (rule quantize_Inr)
  show "hra a * 100 \<in> \<int>" using h(3) quantize_Inr(1) by blast
  show "da a * 100 \<in> \<int>" using h(4) quantize_Inr(1) by blast
  show "gross a * 100 \<in> \<int>" using h(5) by (rule quantize_Inr)
  show "\<bar>gross a\<bar> < 10 ^ 26" using h(5) by (rule quantize_Inr)
  show "pf a * 100 \<in> \<int>" using h(6) quantize_Inr(1) by blast
  show "monthly_tax a * 100 \<in> \<int>" using h(10) quantize_Inr(1) by blast
  show "total_deductions a * 100 \<in> \<int>" using h(11) by (rule quantize_Inr)
  show "net a * 100 \<in> \<int>" using h(12) by (rule quantize_Inr)
qed

lemma amounts_deductions:
  assumes "compute_amounts row = Inr a"
  shows "total_deductions a = pf a + monthly_tax a" and "net a = gross a - total_deductions a"
proof -
  note h = compute_amounts_Inr [OF assms] and c = amounts_cents [OF assms]
  have "(pf a + monthly_tax a) * 100 \<in> \<int>" using Ints_add [OF c(6) c(7)] by (simp add: algebra_simps)
  then show "total_deductions a = pf a + monthly_tax a"
    using h(11) unfolding dec_add_def by (rule quantize_ctx_fix_cents)
  have "(gross a - total_deductions a) * 100 \<in> \<int>"
    using Ints_diff [OF c(5) c(8)] by (simp add: algebra_simps)
  then show "net a = gross a - total_deductions a"
    using h(12) unfolding dec_sub_def by (rule quantize_ctx_fix_cents)
qed

lemma amounts_gross:
  assumes "compute_amounts row = Inr a"
    and "\<bar>basic a + hra a\<bar> < 10 ^ 26 \<and> \<bar>basic a + hra a + da a\<bar> < 10 ^ 26 \<or>
         0 \<le> basic a \<and> 0 \<le> hra a \<and> 0 \<le> da a \<and> 0 \<le> other_allow a"
  shows "gross a = basic a + hra a + da a + other_allow a"
proof -
  note h = compute_amounts_Inr [OF assms(1)] and c = amounts_cents [OF assms(1)]
  have "\<bar>basic a + hra a\<bar> < 10 ^ 26 \<and> \<bar>basic a + hra a + da a\<bar> < 10 ^ 26"
    using assms(2)
  proof
    assume "\<bar>basic a + hra a\<bar> < 10 ^ 26 \<and> \<bar>basic a + hra a + da a\<bar> < 10 ^ 26"
    then show ?thesis .
  next
    assume n: "0 \<le> basic a \<and> 0 \<le> hra a \<and> 0 \<le> da a \<and> 0 \<le> other_allow a"
    then have "0 \<le> basic a" "0 \<le> hra a" "0 \<le> da a" "0 \<le> other_allow a" by simp_all
    from nonneg_sum_bounds [OF this c(1) c(2) h(5)] show ?thesis by simp
  qed
  then have "\<bar>basic a + hra a\<bar> < 10 ^ 26" and "\<bar>basic a + hra a + da a\<bar> < 10 ^ 26" by simp_all
  with c(1) c(2) c(3) c(4) show ?thesis using h(5) by (rule gross_exact)
qed

text \<open>
  Claim C4, as the code has it. Every breakdown \<^verbatim>\<open>compute_pay\<close> returns has
  \<open>total_deductions = pf + tax\<close> and \<open>net_salary = gross_salary - total_deductions\<close>
  exactly. \<open>gross_salary = basic + hra + da + other_allowances\<close> holds when the running
  sums \<open>basic + hra\<close> and \<open>basic + hra + da\<close> stay below \<open>10\<^sup>2\<^sup>6\<close> in absolute value, where
  the 28 digits of the context hold every cent; that is so whenever the four components
  are non-negative.
\<close>

theorem breakdown_invariants:
  assumes "compute_pay conn emp_code month now_month now_iso = (Inr p, conn')"
  shows "b_total_deductions (p_breakdown p) = b_pf (p_breakdown p) + b_tax (p_breakdown p) \<and>
         b_net_salary (p_breakdown p) =
           b_gross_salary (p_breakdown p) - b_total_deductions (p_breakdown p) \<and>
         (\<bar>b_basic (p_breakdown p) + b_hra (p_breakdown p)\<bar> < 10 ^ 26 \<and>
          \<bar>b_basic (p_breakdown p) + b_hra (p_breakdown p) + b_da (p_breakdown p)\<bar> < 10 ^ 26 \<or>
          0 \<le> b_basic (p_breakdown p) \<and> 0 \<le> b_hra (p_breakdown p) \<and>
          0 \<le> b_da (p_breakdown p) \<and> 0 \<le> b_other_allowances (p_breakdown p) \<longrightarrow>
          b_gross_salary (p_breakdown p) =
            b_basic (p_breakdown p) + b_hra (p_breakdown p) + b_da (p_breakdown p) +
            b_other_allowances (p_breakdown p))"
proof -
  from compute_pay_Inr [OF assms] obtain row a
    where a: "compute_amounts row = Inr a" and b: "p_breakdown p = breakdown_of a" by blast
  show ?thesis
    unfolding b breakdown_of_def
    using amounts_deductions [OF a] amounts_gross [OF a] by simp
qed

theorem breakdown_invariants_witness:
  "compute_pay \<lparr>employees = [\<lparr>e_id = 1, e_emp_code = ''E1'', e_name = ''A'', e_designation = ''D'',
        e_basic = 30000, e_hra_percent = 20, e_da_percent = 0, e_other_allowances = 0\<rparr>],
      payslips = []\<rparr> ''E1'' (Some ''2025-01'') ''2025-02'' ''2025-02-01T09:00:00'' =
   (Inr \<lparr>p_emp_code = ''E1'', p_name = ''A'', p_designation = ''D'', p_month = ''2025-01'',
          p_breakdown = \<lparr>b_basic = 30000, b_hra = 6000, b_da = 0, b_other_allowances = 0,
            b_gross_salary = 36000, b_pf = 3600, b_tax = 550, b_total_deductions = 4150,
            b_net_salary = 31850\<rparr>\<rparr>,
    \<lparr>employees = [\<lparr>e_id = 1, e_emp_code = ''E1'', e_name = ''A'', e_designation = ''D'',
        e_basic = 30000, e_hra_percent = 20, e_da_percent = 0, e_other_allowances = 0\<rparr>],
     payslips = [] @ [\<lparr>s_emp_id = 1, s_month = ''2025-01'', s_generated_on = ''2025-02-01T09:00:00'',
        s_gross_salary = 36000, s_total_deductions = 4150, s_net_salary = 31850,
        s_breakdown = \<lparr>b_basic = 30000, b_hra = 6000, b_da = 0, b_other_allowances = 0,
            b_gross_salary = 36000, b_pf = 3600, b_tax = 550, b_total_deductions = 4150,
            b_net_salary = 31850\<rparr>\<rparr>]\<rparr>) \<and>
   (4150 :: rat) = 3600 + 550 \<and> (31850 :: rat) = 36000 - 4150 \<and>
   (36000 :: rat) = 30000 + 6000 + 0 + 0"
proof -
  note h = scenario_pay [of 1 "''E1''" "''A''" "''D''" "[]" "''2025-01''" "''2025-02''"
      "''2025-02-01T09:00:00''"]
  from breakdown_invariants [OF h] h show ?thesis by simp
qed

text \<open>
  Claim C4 as stated fails. Basic \<open>10000.01\<close>, HRA and DA of \<open>6e23\<close> percent each and
  other allowances of \<open>-9e25\<close>: the sum \<open>basic + hra + da\<close> has 29 digits, the context
  drops its cent, and the breakdown returned has a gross salary one cent below the sum of
  its four components.
\<close>

theorem gross_invariant_counterexample:
  "fst (compute_pay \<lparr>employees = [\<lparr>e_id = 1, e_emp_code = ''E1'', e_name = ''A'',
        e_designation = ''D'', e_basic = 1000001 / 100,
        e_hra_percent = 600000000000000000000000, e_da_percent = 600000000000000000000000,
        e_other_allowances = - 90000000000000000000000000\<rparr>],
      payslips = []\<rparr> ''E1'' (Some ''2025-01'') ''2025-02'' ''2025-02-01T09:00:00'') =
   Inr \<lparr>p_emp_code = ''E1'', p_name = ''A'', p_designation = ''D'', p_month = ''2025-01'',
        p_breakdown = \<lparr>b_basic = 1000001 / 100, b_hra = 60000060000000000000000000,
          b_da = 60000060000000000000000000, b_other_allowances = - 90000000000000000000000000,
          b_gross_salary = 30000120000000000000010000, b_pf = 1200,
          b_tax = 1249218749 / 50, b_total_deductions = 1249278749 / 50,
          b_net_salary = 1500005999999999998751221251 / 50\<rparr>\<rparr> \<and>
   (30000120000000000000010000 :: rat) \<noteq>
     1000001 / 100 + 60000060000000000000000000 + 60000060000000000000000000 +
     (- 90000000000000000000000000)"
  unfolding compute_pay_def get_employee_by_code_def
  by (simp add: lossy_amounts breakdown_of_def Let_def)

lemma amounts_taxable:
  assumes "compute_amounts row = Inr a"
  shows "taxable_ann a = max 0 (annual_gross a - 50000)" and "0 \<le> taxable_ann a"
proof -
  note h = compute_amounts_Inr [OF assms] and c = amounts_cents [OF assms]
  show "0 \<le> taxable_ann a" unfolding h(8) by simp
  show "taxable_ann a = max 0 (annual_gross a - 50000)"
  proof (cases "annual_gross a - 50000 \<le> 0")
    case True
    then have "ctx_fix (annual_gross a - 50000) \<le> ctx_fix 0" by (rule ctx_fix_mono)
    then have "dec_sub (annual_gross a) 50000 \<le> 0" by (simp add: dec_sub_def ctx_fix_0)
    with True show ?thesis unfolding h(8) by simp
  next
    case False
    then have ag: "50000 < annual_gross a" by simp
    have pos: "0 < gross a * 12"
    proof (rule ccontr)
      assume "\<not> 0 < gross a * 12"
      then have "gross a * 12 \<le> 0" by simp
      then have "ctx_fix (gross a * 12) \<le> ctx_fix 0" by (rule ctx_fix_mono)
      with ag show False unfolding h(7) dec_mul_def ctx_fix_0 by simp
    qed
    have b: "gross a * 12 < 10 ^ 28" using c(10) by simp
    have "rat_of_int 50000 \<le> ctx_fix (gross a * 12)"
      using ag unfolding h(7) dec_mul_def by simp
    with pos b have "ctx_fix (ctx_fix (gross a * 12) - rat_of_int 50000) =
        ctx_fix (gross a * 12) - rat_of_int 50000"
      by (intro ctx_fix_sub_exact) simp_all
    then have "dec_sub (annual_gross a) 50000 = annual_gross a - 50000"
      unfolding h(7) dec_sub_def dec_mul_def by simp
    with ag show ?thesis unfolding h(8) by simp
  qed
qed

lemma zero_amounts:
  "compute_amounts \<lparr>e_id = i, e_emp_code = c, e_name = n, e_designation = d, e_basic = 0,
      e_hra_percent = 0, e_da_percent = 0, e_other_allowances = 0\<rparr> =
   Inr \<lparr>basic = 0, hra = 0, da = 0, other_allow = 0, gross = 0, pf = 0, annual_gross = 0,
        taxable_ann = 0, annual_tax = 0, monthly_tax = 0, total_deductions = 0, net = 0\<rparr>"
  unfolding compute_amounts_def
  by (simp add: eval_rules income_tax_annually_nonpositive)

text \<open>
  Claim C8. Whenever the arithmetic of \<^verbatim>\<open>compute_pay\<close> goes through, the taxable income
  is \<open>max 0 (annual_gross - 50000)\<close>, exactly, it is not negative, and it is the argument
  of the tax calculator. The all-zero profile gives zero throughout and raises nothing.
\<close>

theorem taxable_income_clamped:
  "(\<forall>row a. compute_amounts row = Inr a \<longrightarrow>
      taxable_ann a = max 0 (annual_gross a - 50000) \<and> 0 \<le> taxable_ann a \<and>
      income_tax_annually (taxable_ann a) = Inr (annual_tax a)) \<and>
   compute_amounts \<lparr>e_id = i, e_emp_code = c, e_name = n, e_designation = d, e_basic = 0,
      e_hra_percent = 0, e_da_percent = 0, e_other_allowances = 0\<rparr> =
   Inr \<lparr>basic = 0, hra = 0, da = 0, other_allow = 0, gross = 0, pf = 0, annual_gross = 0,
        taxable_ann = 0, annual_tax = 0, monthly_tax = 0, total_deductions = 0, net = 0\<rparr>"
  using amounts_taxable compute_amounts_Inr(9) zero_amounts by blast

theorem taxable_income_clamped_witness:
  "compute_amounts \<lparr>e_id = 1, e_emp_code = ''E1'', e_name = ''A'', e_designation = ''D'',
      e_basic = 30000, e_hra_percent = 20, e_da_percent = 0, e_other_allowances = 0\<rparr> =
   Inr \<lparr>basic = 30000, hra = 6000, da = 0, other_allow = 0, gross = 36000, pf = 3600,
        annual_gross = 432000, taxable_ann = 382000, annual_tax = 6600, monthly_tax = 550,
        total_deductions = 4150, net = 31850\<rparr> \<and>
   (382000 :: rat) = max 0 (432000 - 50000) \<and> (0 :: rat) \<le> 382000 \<and>
   income_tax_annually 382000 = Inr 6600"
proof -
  note h = scenario_amounts [of 1 "''E1''" "''A''" "''D''"]
  from taxable_income_clamped h
  have "taxable_ann \<lparr>basic = 30000, hra = 6000, da = 0, other_allow = 0, gross = 36000, pf = 3600,
        annual_gross = 432000, taxable_ann = 382000, annual_tax = 6600, monthly_tax = 550,
        total_deductions = 4150, net = 31850\<rparr> =
      max 0 (annual_gross \<lparr>basic = 30000, hra = 6000, da = 0, other_allow = 0, gross = 36000,
        pf = 3600, annual_gross = 432000, taxable_ann = 382000, annual_tax = 6600,
        monthly_tax = 550, total_deductions = 4150, net = 31850\<rparr> - 50000) \<and>
     income_tax_annually (taxable_ann \<lparr>basic = 30000, hra = 6000, da = 0, other_allow = 0,
        gross = 36000, pf = 3600, annual_gross = 432000, taxable_ann = 382000, annual_tax = 6600,
        monthly_tax = 550, total_deductions = 4150, net = 31850\<rparr>) =
     Inr (annual_tax \<lparr>basic = 30000, hra = 6000, da = 0, other_allow = 0,
        gross = 36000, pf = 3600, annual_gross = 432000, taxable_ann = 382000, annual_tax = 6600,
        monthly_tax = 550, total_deductions = 4150, net = 31850\<rparr>)"
    by blast
  with h show ?thesis by simp
qed

end
